theory Spec2Isabelle
  imports Main "HOL-Library.AList"
begin

section \<open>Data model\<close>

text \<open>
  A cell id is the string \<^verbatim>\<open>"row-col"\<close>; every function of the source splits it at
  \<^verbatim>\<open>"-"\<close> and parses both parts, so an id is modelled by the pair of coordinates it
  encodes. A \<^verbatim>\<open>null\<close> or missing id is \<open>None\<close> of \<open>cell_id option\<close>.
\<close>

type_synonym cell_id = "int \<times> int"

text \<open>
  The values of \<^verbatim>\<open>status\<close>; \<open>NoStatus\<close> is the \<^verbatim>\<open>undefined\<close> read from an object that has
  no such field.
\<close>

datatype cell_status = Unvisited | Wall | StartCell | TargetCell | Visited | ShortestPath | NoStatus

datatype direction = Up | Down | Left | Right

text \<open>The path instructions \<^verbatim>\<open>"f"\<close>, \<^verbatim>\<open>"l"\<close> and \<^verbatim>\<open>"r"\<close>.\<close>

datatype move = Forward | TurnLeft | TurnRight

text \<open>
  A JavaScript number that is either an integer or \<^verbatim>\<open>Infinity\<close>: distances start at
  \<^verbatim>\<open>Infinity\<close> and only integer step costs and weights are ever added to them.
\<close>

datatype num = Fin int | Infinity

fun num_add :: "num \<Rightarrow> int \<Rightarrow> num" where
  "num_add (Fin a) b = Fin (a + b)"
| "num_add Infinity b = Infinity"

fun num_less :: "num \<Rightarrow> num \<Rightarrow> bool" where
  "num_less (Fin a) (Fin b) = (a < b)"
| "num_less (Fin a) Infinity = True"
| "num_less Infinity b = False"

definition num_le :: "num \<Rightarrow> num \<Rightarrow> bool" where
  "num_le a b = (num_less a b \<or> a = b)"

text \<open>
  The fields of \<^verbatim>\<open>Node\<close> that the search reads or writes. The node stored under key
  \<open>k\<close> of the grid has \<^verbatim>\<open>id\<close> \<open>k\<close> (the grid is built that way), so a node object is
  modelled by its key together with this record.
\<close>

record node =
  status :: cell_status
  previousNode :: "cell_id option"
  path :: "move list option"
  direction :: "direction option"
  distance :: num
  totalDistance :: num
  heuristicDistance :: "int option"
  weight :: int

text \<open>The node that \<^verbatim>\<open>new Node(id, status)\<close> builds.\<close>

definition newNode :: "cell_status \<Rightarrow> node" where
  "newNode st = \<lparr> status = st, previousNode = None, path = None, direction = None,
     distance = Infinity, totalDistance = Infinity, heuristicDistance = None, weight = 0 \<rparr>"

section \<open>Cost model\<close>

text \<open>\<^verbatim>\<open>AStar.getDistance\<close> of the class-based search (modern-astar.js).\<close>

fun getDistance :: "cell_id \<times> node \<Rightarrow> cell_id \<times> node \<Rightarrow> int \<times> move list \<times> direction option" where
  "getDistance ((x1, y1), nodeOne) ((x2, y2), nodeTwo) =
    (if x2 < x1 \<and> y1 = y2 then
       ((if direction nodeOne = Some Up then 1 else 2), [Forward], Some Up)
     else if x2 > x1 \<and> y1 = y2 then
       ((if direction nodeOne = Some Down then 1 else 2), [Forward], Some Down)
     else if y2 < y1 \<and> x1 = x2 then
       ((if direction nodeOne = Some Left then 1 else 2), [Forward], Some Left)
     else if y2 > y1 \<and> x1 = x2 then
       ((if direction nodeOne = Some Right then 1 else 2), [Forward], Some Right)
     else (1, [Forward], direction nodeOne))"

section \<open>The grid\<close>

text \<open>
  The \<^verbatim>\<open>nodes\<close> object: keys in insertion order (the order \<^verbatim>\<open>Object.keys\<close> gives),
  each holding its own node object. \<^verbatim>\<open>nodes[k]\<close> is \<open>map_of ns k\<close>; assigning to a field
  of \<^verbatim>\<open>nodes[k]\<close> is \<open>AList.update\<close> at \<open>k\<close>.

  \<^verbatim>\<open>boardArray\<close>: only the truthiness of \<^verbatim>\<open>boardArray[x]\<close> and \<^verbatim>\<open>boardArray[x][y]\<close> is
  read, so an entry is the boolean it converts to; an index outside an array reads
  \<^verbatim>\<open>undefined\<close>.
\<close>

type_synonym grid = "(cell_id \<times> node) list"

type_synonym board = "bool list list"

definition boardCell :: "board \<Rightarrow> int \<Rightarrow> int \<Rightarrow> bool" where
  "boardCell boardArray x y \<longleftrightarrow>
     0 \<le> x \<and> nat x < length boardArray \<and>
     0 \<le> y \<and> nat y < length (boardArray ! nat x) \<and> boardArray ! nat x ! nat y"

text \<open>Reading a property of \<^verbatim>\<open>undefined\<close> or \<^verbatim>\<open>null\<close> throws a \<^verbatim>\<open>TypeError\<close>.\<close>

datatype error = TypeError

text \<open>The two return values of a search: \<^verbatim>\<open>"success!"\<close> and \<^verbatim>\<open>false\<close>.\<close>

datatype outcome = Success | Failed

text \<open>
  The state a search mutates: the grid and the animation array. Two more fields record
  what the run did: \<open>heuristicCalls\<close> lists the cells the heuristic function was called
  for, in call order, and \<open>history\<close> lists the grid after each assignment to a node
  (its first entry is the grid the search was called with).
\<close>

record search_state =
  nodes :: grid
  nodesToAnimate :: "cell_id list"
  heuristicCalls :: "cell_id list"
  history :: "grid list"

definition setNode :: "search_state \<Rightarrow> cell_id \<Rightarrow> node \<Rightarrow> search_state" where
  "setNode s k n =
     s\<lparr>nodes := AList.update k n (nodes s),
       history := history s @ [AList.update k n (nodes s)]\<rparr>"

text \<open>The state a search starts from.\<close>

definition initialState :: "grid \<Rightarrow> cell_id list \<Rightarrow> search_state" where
  "initialState ns animate = \<lparr>nodes = ns, nodesToAnimate = animate, heuristicCalls = [], history = [ns]\<rparr>"

text \<open>JavaScript's conversions of a nullable number: \<^verbatim>\<open>null\<close> counts as 0 in arithmetic
  and comparison, and \<^verbatim>\<open>!h\<close> holds of \<^verbatim>\<open>null\<close> and of 0.\<close>

fun toNumber :: "int option \<Rightarrow> int" where
  "toNumber None = 0"
| "toNumber (Some h) = h"

fun falsy :: "int option \<Rightarrow> bool" where
  "falsy None = True"
| "falsy (Some h) = (h = 0)"

section \<open>The function-style search (improved-astar.js)\<close>

definition validateInputs :: "grid \<Rightarrow> cell_id option \<Rightarrow> cell_id option \<Rightarrow> bool" where
  "validateInputs ns start target =
     (case (start, target) of
        (Some st, Some tg) \<Rightarrow>
          if map_of ns st = None \<or> map_of ns tg = None then False
          else if st = tg then False
          else True
      | _ \<Rightarrow> False)"

definition initializeStartNode :: "search_state \<Rightarrow> cell_id \<Rightarrow> search_state" where
  "initializeStartNode s start =
     (case map_of (nodes s) start of
        None \<Rightarrow> s
      | Some n \<Rightarrow> setNode s start (n\<lparr>distance := Fin 0, totalDistance := Fin 0, direction := Some Up\<rparr>))"

fun findClosestNode_scan ::
  "grid \<Rightarrow> cell_id list \<Rightarrow> nat \<Rightarrow> (cell_id \<times> node) option \<times> nat
     \<Rightarrow> error + ((cell_id \<times> node) option \<times> nat)" where
  "findClosestNode_scan ns [] i (closestNode, closestIndex) = Inr (closestNode, closestIndex)"
| "findClosestNode_scan ns (nodeId # rest) i (closestNode, closestIndex) =
     (case map_of ns nodeId of
        None \<Rightarrow> Inl TypeError
      | Some node \<Rightarrow>
          if status node = Wall then findClosestNode_scan ns rest (Suc i) (closestNode, closestIndex)
          else (case closestNode of
             None \<Rightarrow> findClosestNode_scan ns rest (Suc i) (Some (nodeId, node), i)
           | Some (cid, c) \<Rightarrow>
               if num_less (totalDistance node) (totalDistance c)
               then findClosestNode_scan ns rest (Suc i) (Some (nodeId, node), i)
               else if totalDistance c = totalDistance node
                       \<and> toNumber (heuristicDistance c) > toNumber (heuristicDistance node)
               then findClosestNode_scan ns rest (Suc i) (Some (nodeId, node), i)
               else findClosestNode_scan ns rest (Suc i) (closestNode, closestIndex)))"

text \<open>\<^verbatim>\<open>unvisitedNodes.splice(closestIndex, 1)\<close>\<close>

definition splice1 :: "nat \<Rightarrow> 'a list \<Rightarrow> 'a list" where
  "splice1 i xs = take i xs @ drop (Suc i) xs"

definition findClosestNode ::
  "grid \<Rightarrow> cell_id list \<Rightarrow> error + ((cell_id \<times> node) option \<times> cell_id list)" where
  "findClosestNode ns unvisitedNodes =
     (case findClosestNode_scan ns unvisitedNodes 0 (None, 0) of
        Inl e \<Rightarrow> Inl e
      | Inr (closestNode, closestIndex) \<Rightarrow> Inr (closestNode, splice1 closestIndex unvisitedNodes))"

fun getNeighbors_from ::
  "(int \<times> int) list \<Rightarrow> cell_id \<Rightarrow> grid \<Rightarrow> board \<Rightarrow> cell_id list \<Rightarrow> error + cell_id list" where
  "getNeighbors_from [] (x, y) ns boardArray neighbors = Inr neighbors"
| "getNeighbors_from ((dx, dy) # ds) (x, y) ns boardArray neighbors =
     (let newX = x + dx; newY = y + dy in
      if boardCell boardArray newX newY then
        (case map_of ns (newX, newY) of
           None \<Rightarrow> Inl TypeError
         | Some n \<Rightarrow>
             if status n \<noteq> Wall
             then getNeighbors_from ds (x, y) ns boardArray (neighbors @ [(newX, newY)])
             else getNeighbors_from ds (x, y) ns boardArray neighbors)
      else getNeighbors_from ds (x, y) ns boardArray neighbors)"

definition getNeighbors :: "cell_id \<Rightarrow> grid \<Rightarrow> board \<Rightarrow> error + cell_id list" where
  "getNeighbors nodeId ns boardArray =
     getNeighbors_from [(-1, 0), (1, 0), (0, -1), (0, 1)] nodeId ns boardArray []"

fun manhattanDistance :: "cell_id \<Rightarrow> cell_id \<Rightarrow> int" where
  "manhattanDistance (x1, y1) (x2, y2) = \<bar>x1 - x2\<bar> + \<bar>y1 - y2\<bar>"

fun calculateNodeDistance ::
  "cell_id \<times> node \<Rightarrow> cell_id \<times> node \<Rightarrow> int \<times> move list \<times> direction option" where
  "calculateNodeDistance ((x1, y1), nodeOne) ((x2, y2), nodeTwo) =
     (if x2 < x1 then (1, [Forward], Some Up)
      else if x2 > x1 then (1, [Forward], Some Down)
      else if y2 < y1 then (1, [Forward], Some Left)
      else if y2 > y1 then (1, [Forward], Some Right)
      else (1, [Forward], direction nodeOne))"

definition updateNodeWithNewPath ::
  "node \<Rightarrow> num \<Rightarrow> cell_id \<Rightarrow> int \<times> move list \<times> direction option \<Rightarrow> node" where
  "updateNodeWithNewPath n newDistance previousNodeId distanceData =
     n\<lparr>distance := newDistance,
       totalDistance := num_add newDistance (toNumber (heuristicDistance n)),
       previousNode := Some previousNodeId,
       path := Some (fst (snd distanceData)),
       direction := snd (snd distanceData)\<rparr>"

text \<open>
  \<^verbatim>\<open>updateSingleNeighbor\<close>, with the default heuristic \<^verbatim>\<open>manhattanDistance\<close>. The current
  node is read through its key, as the source reads it through its reference. The
  result is the state, and the error if the call threw.
\<close>

definition cacheHeuristic :: "search_state \<Rightarrow> cell_id \<Rightarrow> node \<Rightarrow> cell_id \<Rightarrow> search_state" where
  "cacheHeuristic s neighborId neighborNode targetId =
     (setNode s neighborId
        (neighborNode\<lparr>heuristicDistance := Some (manhattanDistance neighborId targetId)\<rparr>))
     \<lparr>heuristicCalls := heuristicCalls s @ [neighborId]\<rparr>"

definition relax :: "search_state \<Rightarrow> cell_id \<Rightarrow> node \<Rightarrow> cell_id \<Rightarrow> search_state" where
  "relax s currentId currentNode neighborId =
     (case map_of (nodes s) neighborId of
        None \<Rightarrow> s
      | Some neighborNode \<Rightarrow>
          let dist = calculateNodeDistance (currentId, currentNode) (neighborId, neighborNode);
              distanceToCompare = num_add (num_add (distance currentNode) (weight neighborNode)) (fst dist)
          in if num_less distanceToCompare (distance neighborNode)
             then setNode s neighborId
                    (updateNodeWithNewPath neighborNode distanceToCompare currentId dist)
             else s)"

definition updateSingleNeighbor ::
  "search_state \<Rightarrow> cell_id \<Rightarrow> cell_id \<Rightarrow> cell_id \<Rightarrow> error option \<times> search_state" where
  "updateSingleNeighbor s currentId neighborId targetId =
     (case (map_of (nodes s) currentId, map_of (nodes s) neighborId) of
        (Some currentNode, Some neighborNode) \<Rightarrow>
          if falsy (heuristicDistance neighborNode) then
            (case map_of (nodes s) targetId of
               None \<Rightarrow> (Some TypeError, s)
             | Some targetNode \<Rightarrow>
                 (None, relax (cacheHeuristic s neighborId neighborNode targetId)
                          currentId currentNode neighborId))
          else (None, relax s currentId currentNode neighborId)
      | _ \<Rightarrow> (Some TypeError, s))"

fun updateNeighbors_each ::
  "cell_id list \<Rightarrow> search_state \<Rightarrow> cell_id \<Rightarrow> cell_id \<Rightarrow> error option \<times> search_state" where
  "updateNeighbors_each [] s currentId targetId = (None, s)"
| "updateNeighbors_each (neighborId # rest) s currentId targetId =
     (case updateSingleNeighbor s currentId neighborId targetId of
        (Some e, s') \<Rightarrow> (Some e, s')
      | (None, s') \<Rightarrow> updateNeighbors_each rest s' currentId targetId)"

definition updateNeighbors ::
  "search_state \<Rightarrow> cell_id \<Rightarrow> board \<Rightarrow> cell_id \<Rightarrow> error option \<times> search_state" where
  "updateNeighbors s currentId boardArray targetId =
     (case getNeighbors currentId (nodes s) boardArray of
        Inl e \<Rightarrow> (Some e, s)
      | Inr neighbors \<Rightarrow> updateNeighbors_each neighbors s currentId targetId)"

text \<open>\<^verbatim>\<open>nodesToAnimate.push(currentNode); currentNode.status = "visited"\<close>\<close>

definition visit :: "search_state \<Rightarrow> cell_id \<Rightarrow> node \<Rightarrow> search_state" where
  "visit s c currentNode =
     (setNode s c (currentNode\<lparr>status := Visited\<rparr>))\<lparr>nodesToAnimate := nodesToAnimate s @ [c]\<rparr>"

lemma findClosestNode_scan_index:
  "findClosestNode_scan ns us i (cl, ci) = Inr (cl', ci') \<Longrightarrow> ci' = ci \<or> (i \<le> ci' \<and> ci' < i + length us)"
proof (induction us arbitrary: i cl ci)
  case Nil
  then show ?case by simp
next
  case (Cons u us)
  from Cons.prems obtain cl1 ci1 where
    step: "findClosestNode_scan ns us (Suc i) (cl1, ci1) = Inr (cl', ci')"
    and ci1: "ci1 = ci \<or> ci1 = i"
    by (auto split: option.splits if_splits)
  from Cons.IH[OF step] ci1 show ?case by auto
qed

lemma findClosestNode_shorter:
  assumes "findClosestNode ns us = Inr (cl, rest)" and "us \<noteq> []"
  shows "length rest < length us"
proof -
  from assms(1) obtain ci where
    scan: "findClosestNode_scan ns us 0 (None, 0) = Inr (cl, ci)" and rest: "rest = splice1 ci us"
    by (auto simp: findClosestNode_def split: sum.splits)
  from findClosestNode_scan_index[OF scan] assms(2) have "ci < length us" by auto
  then show ?thesis by (simp add: rest splice1_def)
qed

function astar_loop ::
  "board \<Rightarrow> cell_id \<Rightarrow> cell_id list \<Rightarrow> search_state \<Rightarrow> (error + outcome) \<times> search_state" where
  "astar_loop boardArray target unvisitedNodes s =
     (if unvisitedNodes = [] then (Inr Failed, s)
      else case findClosestNode (nodes s) unvisitedNodes of
         Inl e \<Rightarrow> (Inl e, s)
       | Inr (None, rest) \<Rightarrow> (Inl TypeError, s)
       | Inr (Some (c, currentNode), rest) \<Rightarrow>
           if status currentNode = Wall then astar_loop boardArray target rest s
           else if distance currentNode = Infinity then (Inr Failed, s)
           else let s1 = visit s c currentNode in
                if c = target then (Inr Success, s1)
                else (case updateNeighbors s1 c boardArray target of
                        (Some e, s2) \<Rightarrow> (Inl e, s2)
                      | (None, s2) \<Rightarrow> astar_loop boardArray target rest s2))"
  by pat_completeness auto
termination
  by (relation "measure (\<lambda>(b, t, us, s). length us)") (auto dest: findClosestNode_shorter)

declare astar_loop.simps [simp del]

text \<open>
  \<^verbatim>\<open>astar(nodes, start, target, nodesToAnimate, boardArray, name, heuristic)\<close> with the
  default heuristic; \<^verbatim>\<open>name\<close> is not read. The result is the value returned or the
  error thrown, and the state the call leaves.
\<close>

definition astar ::
  "grid \<Rightarrow> cell_id option \<Rightarrow> cell_id option \<Rightarrow> cell_id list \<Rightarrow> board
     \<Rightarrow> (error + outcome) \<times> search_state" where
  "astar ns start target animate boardArray =
     (let s0 = \<lparr>nodes = ns, nodesToAnimate = animate, heuristicCalls = [], history = [ns]\<rparr> in
      if \<not> validateInputs ns start target then (Inr Failed, s0)
      else (case (start, target) of
              (Some st, Some tg) \<Rightarrow>
                let s1 = initializeStartNode s0 st in
                astar_loop boardArray tg (map fst (nodes s1)) s1
            | _ \<Rightarrow> (Inr Failed, s0)))"

section \<open>The subclass of Algorithm (modern-astar.js)\<close>

text \<open>
  \<^verbatim>\<open>calculateManhattanDistance\<close> of the base class \<^verbatim>\<open>Algorithm\<close> and \<^verbatim>\<open>updateNode\<close> of its
  subclass \<^verbatim>\<open>AStar\<close>, whose step cost is \<open>getDistance\<close>. \<^verbatim>\<open>updateNode(currentNode,
  targetNode, actualTargetNode, startNode)\<close> is given the keys of the first three nodes;
  \<^verbatim>\<open>startNode\<close> is not read. The heuristic is cached first, then the neighbour is
  compared and, if the new path is better, assigned to.
\<close>

fun calculateManhattanDistance :: "cell_id \<Rightarrow> cell_id \<Rightarrow> int" where
  "calculateManhattanDistance (a1, a2) (b1, b2) = \<bar>a1 - b1\<bar> + \<bar>a2 - b2\<bar>"

definition updateNode ::
  "search_state \<Rightarrow> cell_id \<Rightarrow> cell_id \<Rightarrow> cell_id \<Rightarrow> error option \<times> search_state" where
  "updateNode s currentId targetId actualTargetId =
     (case (map_of (nodes s) currentId, map_of (nodes s) targetId) of
        (Some currentNode, Some targetNode) \<Rightarrow>
          let dist = getDistance (currentId, currentNode) (targetId, targetNode) in
          (case (if falsy (heuristicDistance targetNode)
                 then (case map_of (nodes s) actualTargetId of
                         None \<Rightarrow> Inl TypeError
                       | Some actualTargetNode \<Rightarrow>
                           let n1 = targetNode\<lparr>heuristicDistance :=
                                      Some (calculateManhattanDistance targetId actualTargetId)\<rparr>
                           in Inr ((setNode s targetId n1)
                                     \<lparr>heuristicCalls := heuristicCalls s @ [targetId]\<rparr>, n1))
                 else Inr (s, targetNode)) of
             Inl e \<Rightarrow> (Some e, s)
           | Inr (s1, n1) \<Rightarrow>
               let distanceToCompare =
                     num_add (num_add (distance currentNode) (weight n1)) (fst dist)
               in if num_less distanceToCompare (distance n1)
                  then (None, setNode s1 targetId
                          (n1\<lparr>distance := distanceToCompare,
                              totalDistance :=
                                num_add distanceToCompare (toNumber (heuristicDistance n1)),
                              previousNode := Some currentId,
                              path := Some (fst (snd dist)),
                              direction := snd (snd dist)\<rparr>))
                  else (None, s1))
      | _ \<Rightarrow> (Some TypeError, s))"

text \<open>
  The other methods of the two classes. Where the function-style search has a function
  of the same name, the method's name ends in \<open>_class\<close>. \<^verbatim>\<open>getNeighbors\<close> of the base class
  is the loop of the function-style \<^verbatim>\<open>getNeighbors\<close> over the directions up, right, down,
  left.
\<close>

definition getNeighbors_class :: "cell_id \<Rightarrow> grid \<Rightarrow> board \<Rightarrow> error + cell_id list" where
  "getNeighbors_class nodeId ns boardArray =
     getNeighbors_from [(-1, 0), (0, 1), (1, 0), (0, -1)] nodeId ns boardArray []"

text \<open>
  \<^verbatim>\<open>findClosestNode\<close> of the subclass does not skip walls. \<^verbatim>\<open>index\<close> is \<^verbatim>\<open>undefined\<close> until
  the first turn of the loop, and \<^verbatim>\<open>splice(undefined, 1)\<close> is \<^verbatim>\<open>splice(0, 1)\<close>. A key without
  a node leaves \<^verbatim>\<open>currentClosest\<close> undefined if it was, and throws otherwise.
\<close>

fun findClosestNode_class_scan ::
  "grid \<Rightarrow> cell_id list \<Rightarrow> nat \<Rightarrow> (cell_id \<times> node) option \<times> nat option
     \<Rightarrow> error + ((cell_id \<times> node) option \<times> nat option)" where
  "findClosestNode_class_scan ns [] i (currentClosest, index) = Inr (currentClosest, index)"
| "findClosestNode_class_scan ns (nodeId # rest) i (currentClosest, index) =
     (case currentClosest of
        None \<Rightarrow>
          findClosestNode_class_scan ns rest (Suc i)
            (map_option (Pair nodeId) (map_of ns nodeId), Some i)
      | Some (cid, c) \<Rightarrow>
          (case map_of ns nodeId of
             None \<Rightarrow> Inl TypeError
           | Some node \<Rightarrow>
               if num_less (totalDistance node) (totalDistance c)
               then findClosestNode_class_scan ns rest (Suc i) (Some (nodeId, node), Some i)
               else if totalDistance c = totalDistance node
               then (if toNumber (heuristicDistance c) > toNumber (heuristicDistance node)
                     then findClosestNode_class_scan ns rest (Suc i) (Some (nodeId, node), Some i)
                     else findClosestNode_class_scan ns rest (Suc i) (currentClosest, index))
               else findClosestNode_class_scan ns rest (Suc i) (currentClosest, index)))"

definition findClosestNode_class ::
  "grid \<Rightarrow> cell_id list \<Rightarrow> error + ((cell_id \<times> node) option \<times> cell_id list)" where
  "findClosestNode_class ns unvisitedNodes =
     (case findClosestNode_class_scan ns unvisitedNodes 0 (None, None) of
        Inl e \<Rightarrow> Inl e
      | Inr (currentClosest, index) \<Rightarrow>
          Inr (currentClosest,
               splice1 (case index of None \<Rightarrow> 0 | Some i \<Rightarrow> i) unvisitedNodes))"

lemma findClosestNode_class_scan_index:
  "findClosestNode_class_scan ns us i (cl, ci) = Inr (cl', ci') \<Longrightarrow>
     ci' = ci \<or> (\<exists>j. ci' = Some j \<and> i \<le> j \<and> j < i + length us)"
proof (induction us arbitrary: i cl ci)
  case Nil
  then show ?case by simp
next
  case (Cons u us)
  from Cons.prems obtain cl1 ci1 where
    step: "findClosestNode_class_scan ns us (Suc i) (cl1, ci1) = Inr (cl', ci')"
    and ci1: "ci1 = ci \<or> ci1 = Some i"
    by (auto split: option.splits if_splits)
  from Cons.IH[OF step] ci1 show ?case by auto
qed

lemma findClosestNode_class_scan_first:
  "findClosestNode_class_scan ns (u # us) i (None, ci) = Inr (cl', ci') \<Longrightarrow>
     \<exists>j. ci' = Some j \<and> i \<le> j \<and> j < i + length (u # us)"
proof -
  assume a: "findClosestNode_class_scan ns (u # us) i (None, ci) = Inr (cl', ci')"
  then have "findClosestNode_class_scan ns us (Suc i) (map_option (Pair u) (map_of ns u), Some i)
               = Inr (cl', ci')"
    by simp
  from findClosestNode_class_scan_index[OF this] show ?thesis by auto
qed

lemma findClosestNode_class_shorter:
  assumes "findClosestNode_class ns us = Inr (cl, rest)" and "us \<noteq> []"
  shows "length rest < length us"
proof -
  from assms(1) obtain ci where
    scan: "findClosestNode_class_scan ns us 0 (None, None) = Inr (cl, ci)"
    and rest: "rest = splice1 (case ci of None \<Rightarrow> 0 | Some i \<Rightarrow> i) us"
    by (auto simp: findClosestNode_class_def split: sum.splits)
  from assms(2) obtain u us' where us: "us = u # us'" by (cases us) auto
  from findClosestNode_class_scan_first[OF scan[unfolded us]] us
  obtain j where "ci = Some j" "j < length us" by auto
  then show ?thesis by (simp add: rest splice1_def)
qed

text \<open>
  The inner loop of \<^verbatim>\<open>execute\<close>: \<^verbatim>\<open>while (currentNode.status === "wall" &&
  unvisitedNodes.length) currentNode = this.findClosestNode(unvisitedNodes)\<close>.
\<close>

function skipWalls ::
  "grid \<Rightarrow> (cell_id \<times> node) option \<Rightarrow> cell_id list
     \<Rightarrow> error + ((cell_id \<times> node) \<times> cell_id list)" where
  "skipWalls ns currentNode unvisitedNodes =
     (case currentNode of
        None \<Rightarrow> Inl TypeError
      | Some (c, n) \<Rightarrow>
          if status n = Wall \<and> unvisitedNodes \<noteq> []
          then (case findClosestNode_class ns unvisitedNodes of
                  Inl e \<Rightarrow> Inl e
                | Inr (nextNode, rest) \<Rightarrow> skipWalls ns nextNode rest)
          else Inr ((c, n), unvisitedNodes))"
  by pat_completeness auto
termination
  by (relation "measure (\<lambda>(ns, cur, us). length us)") (auto dest: findClosestNode_class_shorter)

declare skipWalls.simps [simp del]

lemma skipWalls_length:
  "skipWalls ns cur us = Inr (r, us') \<Longrightarrow> length us' \<le> length us"
proof (induction ns cur us rule: skipWalls.induct)
  case (1 ns cur us)
  show ?case
  proof (cases cur)
    case None
    with "1.prems" show ?thesis by (subst (asm) skipWalls.simps) simp
  next
    case (Some cn)
    obtain c n where cn: "cn = (c, n)" by (cases cn)
    show ?thesis
    proof (cases "status n = Wall \<and> us \<noteq> []")
      case False
      with "1.prems" Some cn show ?thesis by (subst (asm) skipWalls.simps) auto
    next
      case True
      with "1.prems" Some cn obtain nx rest where
        f: "findClosestNode_class ns us = Inr (nx, rest)"
        and r: "skipWalls ns nx rest = Inr (r, us')"
        by (subst (asm) skipWalls.simps) (auto split: sum.splits)
      from True have ne: "us \<noteq> []" by simp
      from "1.IH"[OF Some cn[symmetric] True f refl r] findClosestNode_class_shorter[OF f ne]
      show ?thesis by simp
    qed
  qed
qed

fun updateNeighbors_class_each ::
  "cell_id list \<Rightarrow> search_state \<Rightarrow> cell_id \<Rightarrow> cell_id \<Rightarrow> error option \<times> search_state" where
  "updateNeighbors_class_each [] s nodeId target = (None, s)"
| "updateNeighbors_class_each (neighborId # rest) s nodeId target =
     (case updateNode s nodeId neighborId target of
        (Some e, s') \<Rightarrow> (Some e, s')
      | (None, s') \<Rightarrow> updateNeighbors_class_each rest s' nodeId target)"


definition updateNeighbors_class ::
  "search_state \<Rightarrow> cell_id \<Rightarrow> board \<Rightarrow> cell_id \<Rightarrow> error option \<times> search_state" where
  "updateNeighbors_class s nodeId boardArray target =
     (case getNeighbors_class nodeId (nodes s) boardArray of
        Inl e \<Rightarrow> (Some e, s)
      | Inr neighbors \<Rightarrow> updateNeighbors_class_each neighbors s nodeId target)"

text \<open>
  The outer loop of \<^verbatim>\<open>execute\<close>. When the list of unvisited nodes runs empty the method
  ends without a \<^verbatim>\<open>return\<close>: its value is \<^verbatim>\<open>undefined\<close>, here \<open>None\<close>.
\<close>

function execute_loop ::
  "board \<Rightarrow> cell_id \<Rightarrow> cell_id list \<Rightarrow> search_state
     \<Rightarrow> (error + outcome option) \<times> search_state" where
  "execute_loop boardArray target unvisitedNodes s =
     (if unvisitedNodes = [] then (Inr None, s)
      else case findClosestNode_class (nodes s) unvisitedNodes of
         Inl e \<Rightarrow> (Inl e, s)
       | Inr (closest, rest) \<Rightarrow>
           (case skipWalls (nodes s) closest rest of
              Inl e \<Rightarrow> (Inl e, s)
            | Inr ((c, currentNode), rest') \<Rightarrow>
                if distance currentNode = Infinity then (Inr (Some Failed), s)
                else let s1 = visit s c currentNode in
                     if c = target then (Inr (Some Success), s1)
                     else (case updateNeighbors_class s1 c boardArray target of
                             (Some e, s2) \<Rightarrow> (Inl e, s2)
                           | (None, s2) \<Rightarrow> execute_loop boardArray target rest' s2)))"
  by pat_completeness auto
termination
proof (relation "measure (\<lambda>(b, t, us, s). length us)", goal_cases)
  case 1
  show ?case by simp
next
  case (2 b t us s x cl rest y z rest' c n s1 e s2)
  then show ?case
    using findClosestNode_class_shorter[of "nodes s" us cl rest]
      skipWalls_length[of "nodes s" cl rest "(c, n)" rest']
    by auto
qed

declare execute_loop.simps [simp del]

text \<open>
  \<^verbatim>\<open>execute(start, target)\<close> on an instance built by \<^verbatim>\<open>new AStar(nodes, boardArray)\<close>, whose
  \<^verbatim>\<open>nodesToAnimate\<close> holds \<open>animate\<close>. Assigning the distance of a start node the grid does
  not hold throws.
\<close>

definition execute ::
  "grid \<Rightarrow> board \<Rightarrow> cell_id list \<Rightarrow> cell_id option \<Rightarrow> cell_id option
     \<Rightarrow> (error + outcome option) \<times> search_state" where
  "execute ns boardArray animate start target =
     (case (start, target) of
        (Some st, Some tg) \<Rightarrow>
          if st = tg then (Inr (Some Failed), initialState ns animate)
          else
            (case map_of ns st of
               None \<Rightarrow> (Inl TypeError, initialState ns animate)
             | Some n \<Rightarrow>
                 let s1 = setNode (initialState ns animate) st
                            (n\<lparr>distance := Fin 0, totalDistance := Fin 0, direction := Some Up\<rparr>)
                 in execute_loop boardArray tg (map fst (nodes s1)) s1)
      | _ \<Rightarrow> (Inr (Some Failed), initialState ns animate))"

section \<open>Path reconstruction\<close>

text \<open>
  \<^verbatim>\<open>getShortestPath(nodes, targetId)\<close> of the pathfinding utilities, and the method of
  the same name of the ES6 class: the loops \<^verbatim>\<open>while (currentNodeId !== null)\<close> and
  \<^verbatim>\<open>while (currentNodeId)\<close> stop at a \<^verbatim>\<open>null\<close> id and go on at a cell id.
  Each turn puts the current node in front of the path and moves to its
  \<^verbatim>\<open>previousNode\<close>; a node the grid does not hold throws. The loop has no other exit, so
  the function is partial: \<open>None\<close> is a call that never returns.
\<close>

partial_function (option) getShortestPath_walk ::
  "grid \<Rightarrow> cell_id option \<Rightarrow> cell_id list \<Rightarrow> (error + cell_id list) option" where
  "getShortestPath_walk ns currentNodeId pth =
     (case currentNodeId of
        None \<Rightarrow> Some (Inr pth)
      | Some c \<Rightarrow>
          (case map_of ns c of
             None \<Rightarrow> Some (Inl TypeError)
           | Some n \<Rightarrow> getShortestPath_walk ns (previousNode n) (c # pth)))"

definition getShortestPath :: "grid \<Rightarrow> cell_id option \<Rightarrow> (error + cell_id list) option" where
  "getShortestPath ns targetId = getShortestPath_walk ns targetId []"

text \<open>
  \<open>links ns prev cs\<close>: the cells \<open>cs\<close> are linked by \<^verbatim>\<open>previousNode\<close>, each to the one
  before it and the first to \<open>prev\<close>.
\<close>

fun links :: "grid \<Rightarrow> cell_id option \<Rightarrow> cell_id list \<Rightarrow> bool" where
  "links ns prev [] = True"
| "links ns prev (c # cs) =
     ((case map_of ns c of None \<Rightarrow> False | Some n \<Rightarrow> previousNode n = prev)
      \<and> links ns (Some c) cs)"

section \<open>Neighbours with diagonal moves\<close>

text \<open>The direction tables of both functions, in their order.\<close>

definition cardinalDirections :: "(int \<times> int) list" where
  "cardinalDirections = [(-1, 0), (1, 0), (0, -1), (0, 1)]"

definition diagonalDirections :: "(int \<times> int) list" where
  "diagonalDirections = [(-1, -1), (-1, 1), (1, -1), (1, 1)]"

text \<open>\<^verbatim>\<open>nodes[k].status !== "wall"\<close>, which throws when the grid has no node \<open>k\<close>.\<close>

definition notWall :: "grid \<Rightarrow> cell_id \<Rightarrow> error + bool" where
  "notWall ns k = (case map_of ns k of None \<Rightarrow> Inl TypeError | Some n \<Rightarrow> Inr (status n \<noteq> Wall))"

text \<open>
  \<^verbatim>\<open>getNeighbors(nodeId, nodes, boardArray, allowDiagonal)\<close> of the pathfinding
  utilities. For a diagonal step the two cells beside it are read first (the second only
  if the first is a wall), then the candidate itself.
\<close>

fun utils_getNeighbors_from ::
  "(int \<times> int) list \<Rightarrow> cell_id \<Rightarrow> grid \<Rightarrow> board \<Rightarrow> cell_id list \<Rightarrow> error + cell_id list" where
  "utils_getNeighbors_from [] (x, y) ns boardArray neighbors = Inr neighbors"
| "utils_getNeighbors_from ((dx, dy) # ds) (x, y) ns boardArray neighbors =
     (let newX = x + dx; newY = y + dy in
      if boardCell boardArray newX newY then
        if \<bar>dx\<bar> = 1 \<and> \<bar>dy\<bar> = 1 then
          (case notWall ns (x, newY) of
             Inl e \<Rightarrow> Inl e
           | Inr adjacentXFree \<Rightarrow>
               (case (if adjacentXFree then Inr True else notWall ns (newX, y)) of
                  Inl e \<Rightarrow> Inl e
                | Inr False \<Rightarrow> utils_getNeighbors_from ds (x, y) ns boardArray neighbors
                | Inr True \<Rightarrow>
                    (case notWall ns (newX, newY) of
                       Inl e \<Rightarrow> Inl e
                     | Inr True \<Rightarrow>
                         utils_getNeighbors_from ds (x, y) ns boardArray (neighbors @ [(newX, newY)])
                     | Inr False \<Rightarrow> utils_getNeighbors_from ds (x, y) ns boardArray neighbors)))
        else
          (case notWall ns (newX, newY) of
             Inl e \<Rightarrow> Inl e
           | Inr True \<Rightarrow>
               utils_getNeighbors_from ds (x, y) ns boardArray (neighbors @ [(newX, newY)])
           | Inr False \<Rightarrow> utils_getNeighbors_from ds (x, y) ns boardArray neighbors)
      else utils_getNeighbors_from ds (x, y) ns boardArray neighbors)"

definition utils_getNeighbors :: "cell_id \<Rightarrow> grid \<Rightarrow> board \<Rightarrow> bool \<Rightarrow> error + cell_id list" where
  "utils_getNeighbors nodeId ns boardArray allowDiagonal =
     utils_getNeighbors_from
       (if allowDiagonal then cardinalDirections @ diagonalDirections else cardinalDirections)
       nodeId ns boardArray []"

text \<open>
  \<^verbatim>\<open>#getNeighbors\<close> of the ES6 class, \<^verbatim>\<open>this.options.allowDiagonal\<close> as an argument. The
  candidate is read first; for a diagonal step that is not a wall the two cells beside
  it are read (the second only if the first is a wall).
\<close>

fun AStar_getNeighbors_from ::
  "(int \<times> int) list \<Rightarrow> cell_id \<Rightarrow> grid \<Rightarrow> board \<Rightarrow> cell_id list \<Rightarrow> error + cell_id list" where
  "AStar_getNeighbors_from [] (x, y) ns boardArray neighbors = Inr neighbors"
| "AStar_getNeighbors_from ((dx, dy) # ds) (x, y) ns boardArray neighbors =
     (let newX = x + dx; newY = y + dy in
      if \<not> boardCell boardArray newX newY
      then AStar_getNeighbors_from ds (x, y) ns boardArray neighbors
      else
        (case notWall ns (newX, newY) of
           Inl e \<Rightarrow> Inl e
         | Inr False \<Rightarrow> AStar_getNeighbors_from ds (x, y) ns boardArray neighbors
         | Inr True \<Rightarrow>
             if \<bar>dx\<bar> = 1 \<and> \<bar>dy\<bar> = 1 then
               (case notWall ns (x, newY) of
                  Inl e \<Rightarrow> Inl e
                | Inr horizontalFree \<Rightarrow>
                    (case (if horizontalFree then Inr True else notWall ns (newX, y)) of
                       Inl e \<Rightarrow> Inl e
                     | Inr False \<Rightarrow> AStar_getNeighbors_from ds (x, y) ns boardArray neighbors
                     | Inr True \<Rightarrow>
                         AStar_getNeighbors_from ds (x, y) ns boardArray
                           (neighbors @ [(newX, newY)])))
             else AStar_getNeighbors_from ds (x, y) ns boardArray (neighbors @ [(newX, newY)])))"

definition AStar_getNeighbors :: "bool \<Rightarrow> cell_id \<Rightarrow> grid \<Rightarrow> board \<Rightarrow> error + cell_id list" where
  "AStar_getNeighbors allowDiagonal nodeId ns boardArray =
     AStar_getNeighbors_from
       (if allowDiagonal then cardinalDirections @ diagonalDirections else cardinalDirections)
       nodeId ns boardArray []"

text \<open>
  The rule of the specification for one direction: the candidate lies on the board, is
  not a wall, and, for a diagonal step, the two cells beside the step are not both walls.
\<close>

definition isWall :: "grid \<Rightarrow> cell_id \<Rightarrow> bool" where
  "isWall ns k = (case map_of ns k of None \<Rightarrow> False | Some n \<Rightarrow> status n = Wall)"

fun stepAllowed :: "grid \<Rightarrow> board \<Rightarrow> cell_id \<Rightarrow> int \<times> int \<Rightarrow> bool" where
  "stepAllowed ns boardArray (x, y) (dx, dy) =
     (boardCell boardArray (x + dx) (y + dy) \<and> \<not> isWall ns (x + dx, y + dy)
      \<and> \<not> (\<bar>dx\<bar> = 1 \<and> \<bar>dy\<bar> = 1 \<and> isWall ns (x, y + dy) \<and> isWall ns (x + dx, y)))"

fun stepTo :: "cell_id \<Rightarrow> int \<times> int \<Rightarrow> cell_id" where
  "stepTo (x, y) (dx, dy) = (x + dx, y + dy)"

text \<open>
  A board as the repository builds it: every row as long as the first, every entry
  truthy, and a node in the grid for every entry.
\<close>

definition fullBoard :: "grid \<Rightarrow> board \<Rightarrow> bool" where
  "fullBoard ns boardArray \<longleftrightarrow>
     (\<forall>i < length boardArray.
        length (boardArray ! i) = length (boardArray ! 0)
        \<and> (\<forall>j < length (boardArray ! i).
              boardArray ! i ! j \<and> map_of ns (int i, int j) \<noteq> None))"

text \<open>The nodes a step from \<open>(x, y)\<close> in direction \<open>(dx, dy)\<close> reads are in the grid.\<close>

fun nodesPresent :: "grid \<Rightarrow> board \<Rightarrow> cell_id \<Rightarrow> int \<times> int \<Rightarrow> bool" where
  "nodesPresent ns boardArray (x, y) (dx, dy) =
     (boardCell boardArray (x + dx) (y + dy) \<longrightarrow>
        map_of ns (x + dx, y + dy) \<noteq> None \<and>
        (\<bar>dx\<bar> = 1 \<and> \<bar>dy\<bar> = 1 \<longrightarrow>
           map_of ns (x, y + dy) \<noteq> None \<and> map_of ns (x + dx, y) \<noteq> None))"

section \<open>Invariants of a run\<close>

text \<open>
  \<open>wallsKept ns0 st h\<close>: every wall of the grid \<open>ns0\<close> is a wall of \<open>h\<close>, and carries the
  record it has in \<open>ns0\<close> unless it is the cell \<open>st\<close>.
\<close>

definition wallsKept :: "grid \<Rightarrow> cell_id \<Rightarrow> grid \<Rightarrow> bool" where
  "wallsKept ns0 st h \<longleftrightarrow>
     (\<forall>c n0. map_of ns0 c = Some n0 \<and> status n0 = Wall \<longrightarrow>
        (\<exists>n. map_of h c = Some n \<and> status n = Wall \<and> (c \<noteq> st \<longrightarrow> n = n0)))"

definition inv_walls :: "grid \<Rightarrow> cell_id \<Rightarrow> cell_id list \<Rightarrow> search_state \<Rightarrow> bool" where
  "inv_walls ns0 st animate0 s \<longleftrightarrow>
     dom (map_of (nodes s)) = dom (map_of ns0)
     \<and> wallsKept ns0 st (nodes s)
     \<and> (\<forall>h\<in>set (history s). wallsKept ns0 st h)
     \<and> (\<exists>tr. nodesToAnimate s = animate0 @ tr
           \<and> (\<forall>c\<in>set tr. \<exists>n0 n. map_of ns0 c = Some n0 \<and> status n0 \<noteq> Wall
                  \<and> map_of (nodes s) c = Some n \<and> status n = Visited))"

text \<open>One assignment to a node that is not a wall, which may also append it to the trace.\<close>

definition assigns :: "search_state \<Rightarrow> search_state \<Rightarrow> bool" where
  "assigns s s' \<longleftrightarrow>
     (\<exists>k n n'. map_of (nodes s) k = Some n \<and> status n \<noteq> Wall
        \<and> map_of (nodes s') = (map_of (nodes s))(k \<mapsto> n') \<and> status n' \<noteq> Wall
        \<and> (status n = Visited \<longrightarrow> status n' = Visited)
        \<and> history s' = history s @ [nodes s']
        \<and> (nodesToAnimate s' = nodesToAnimate s
            \<or> nodesToAnimate s' = nodesToAnimate s @ [k] \<and> status n' = Visited))"

text \<open>
  The order of the frontier: \<open>notWorse a b\<close> when \<open>a\<close> has the lower \<^verbatim>\<open>totalDistance\<close>, or
  the same and a \<^verbatim>\<open>heuristicDistance\<close> that is not higher (\<^verbatim>\<open>null\<close> counting as 0, as
  the comparison of the source converts it).
\<close>

definition notWorse :: "node \<Rightarrow> node \<Rightarrow> bool" where
  "notWorse a b \<longleftrightarrow>
     num_less (totalDistance a) (totalDistance b)
     \<or> (totalDistance a = totalDistance b
         \<and> toNumber (heuristicDistance a) \<le> toNumber (heuristicDistance b))"






text \<open>\<open>decreased h h'\<close>: no cell has a higher distance or total distance in \<open>h'\<close> than in \<open>h\<close>.\<close>

definition decreased :: "grid \<Rightarrow> grid \<Rightarrow> bool" where
  "decreased h h' \<longleftrightarrow>
     dom (map_of h') = dom (map_of h)
     \<and> (\<forall>c n n'. map_of h c = Some n \<and> map_of h' c = Some n' \<longrightarrow>
           num_le (distance n') (distance n) \<and> num_le (totalDistance n') (totalDistance n))"







section \<open>The class-style search (modern-astar.js)\<close>

text \<open>
  The class \<^verbatim>\<open>AStar\<close> with private methods. Its options are \<^verbatim>\<open>allowDiagonal\<close>,
  \<^verbatim>\<open>heuristicFunction\<close> and \<^verbatim>\<open>weight\<close> (here \<open>heuristicWeight\<close>, the name \<open>weight\<close> being
  the node's field). The Euclidean heuristic takes a square root and is left out: the
  option names it can take here are \<^verbatim>\<open>'manhattan'\<close>, \<^verbatim>\<open>'chebyshev'\<close> and any other string,
  which the \<^verbatim>\<open>switch\<close> treats as Manhattan; the multiplier is an integer.
\<close>

datatype heuristicName = Manhattan | Chebyshev | OtherHeuristic

record options =
  allowDiagonal :: bool
  heuristicFunction :: heuristicName
  heuristicWeight :: int

text \<open>
  The options the constructor sets when it is given none.
\<close>

definition defaultOptions :: options where
  "defaultOptions = \<lparr>allowDiagonal = False, heuristicFunction = Manhattan, heuristicWeight = 1\<rparr>"

text \<open>
  The example of this file builds its grid of plain objects \<^verbatim>\<open>{id, status, distance:
  Infinity, totalDistance: Infinity, weight, previousNode: null}\<close>, which have no
  \<^verbatim>\<open>heuristicDistance\<close> property; a node built by \<^verbatim>\<open>new Node\<close> has the property, with the
  value \<^verbatim>\<open>null\<close>. The test \<^verbatim>\<open>neighborNode.heuristicDistance === undefined\<close> of
  \<^verbatim>\<open>#updateNeighbors\<close> tells the two apart: it holds of an object without the property and
  fails on \<^verbatim>\<open>null\<close>. A node record holds \<^verbatim>\<open>null\<close> as \<open>None\<close>, so the search is given, beside
  the grid, the list \<open>noHeuristic\<close> of the keys whose object has no \<^verbatim>\<open>heuristicDistance\<close>
  property (every key of a grid of plain objects, no key of a grid built by \<^verbatim>\<open>new Node\<close>).
  The test is membership in that list, and assigning the property takes the key out
  of it; for a key in the list the field of the record is not read.
\<close>

definition plainNode :: "cell_status \<Rightarrow> int \<Rightarrow> node" where
  "plainNode st w = \<lparr> status = st, previousNode = None, path = None, direction = None,
     distance = Infinity, totalDistance = Infinity, heuristicDistance = None, weight = w \<rparr>"

fun AStar_getDistance :: "cell_id \<times> node \<Rightarrow> cell_id \<times> node \<Rightarrow> int \<times> move list \<times> direction option" where
  "AStar_getDistance ((x1, y1), nodeA) ((x2, y2), nodeB) =
     (if x1 = x2
      then (if y2 > y1 then (1, [Forward], Some Right) else (1, [Forward], Some Left))
      else (if x2 > x1 then (1, [Forward], Some Down) else (1, [Forward], Some Up)))"

fun AStar_calculateHeuristic :: "options \<Rightarrow> cell_id \<Rightarrow> cell_id \<Rightarrow> int" where
  "AStar_calculateHeuristic opts (x1, y1) (x2, y2) =
     (case heuristicFunction opts of
        Manhattan \<Rightarrow> heuristicWeight opts * (\<bar>x1 - x2\<bar> + \<bar>y1 - y2\<bar>)
      | Chebyshev \<Rightarrow> heuristicWeight opts * max \<bar>x1 - x2\<bar> \<bar>y1 - y2\<bar>
      | OtherHeuristic \<Rightarrow> heuristicWeight opts * (\<bar>x1 - x2\<bar> + \<bar>y1 - y2\<bar>))"

text \<open>
  \<^verbatim>\<open>#findNodeWithLowestDistance\<close>: a \<^verbatim>\<open>reduce\<close> over the entries of the map, in insertion
  order, that starts from the first key and moves to an entry only if its value is
  strictly below the value of the key held. The map is an association list in
  insertion order; the loop calls the method on a non-empty map only, and \<open>None\<close> is
  the empty map.
\<close>

fun AStar_reduceLowest :: "(cell_id \<times> num) list \<Rightarrow> (cell_id \<times> num) list \<Rightarrow> cell_id \<Rightarrow> cell_id" where
  "AStar_reduceLowest unvisitedMap [] lowest = lowest"
| "AStar_reduceLowest unvisitedMap ((nodeId, d) # entries) lowest =
     AStar_reduceLowest unvisitedMap entries
       (case map_of unvisitedMap lowest of
          None \<Rightarrow> lowest
        | Some v \<Rightarrow> if num_less d v then nodeId else lowest)"

definition AStar_findNodeWithLowestDistance :: "(cell_id \<times> num) list \<Rightarrow> cell_id option" where
  "AStar_findNodeWithLowestDistance unvisitedMap =
     (case unvisitedMap of
        [] \<Rightarrow> None
      | (k, v) # rest \<Rightarrow> Some (AStar_reduceLowest unvisitedMap unvisitedMap k))"

text \<open>
  The body of the \<^verbatim>\<open>forEach\<close> of \<^verbatim>\<open>#updateNeighbors\<close> for one neighbour, on the map of
  unvisited cells and the state. \<^verbatim>\<open>Map.set\<close> overwrites the value of a key in place and
  appends a new key, as \<open>AList.update\<close> does. A missing target node throws when its
  \<^verbatim>\<open>id\<close> is read, after the neighbour's new object has been stored.
\<close>

definition AStar_updateNeighbor ::
  "options \<Rightarrow> cell_id \<Rightarrow> node \<Rightarrow> cell_id \<Rightarrow> cell_id list
     \<Rightarrow> (cell_id \<times> num) list \<times> cell_id list \<times> search_state \<Rightarrow> cell_id
     \<Rightarrow> error option \<times> (cell_id \<times> num) list \<times> cell_id list \<times> search_state" where
  "AStar_updateNeighbor opts currentId currentNode targetId visited ms neighborId =
     (case ms of (unvisitedMap, noHeuristic, s) \<Rightarrow>
      if neighborId \<in> set visited then (None, unvisitedMap, noHeuristic, s)
      else
        (case map_of (nodes s) neighborId of
           None \<Rightarrow> (Some TypeError, unvisitedMap, noHeuristic, s)
         | Some neighborNode \<Rightarrow>
             let dist = AStar_getDistance (currentId, currentNode) (neighborId, neighborNode);
                 distanceToCompare =
                   num_add (num_add (distance currentNode) (weight neighborNode)) (fst dist)
             in if num_less distanceToCompare (distance neighborNode) then
                  let n1 = neighborNode\<lparr>distance := distanceToCompare,
                             previousNode := Some currentId,
                             path := Some (fst (snd dist)),
                             direction := snd (snd dist)\<rparr>;
                      s1 = setNode s neighborId n1
                  in (case (if neighborId \<in> set noHeuristic
                            then (case map_of (nodes s1) targetId of
                                    None \<Rightarrow> Inl TypeError
                                  | Some targetNode \<Rightarrow>
                                      Inr (s1\<lparr>heuristicCalls := heuristicCalls s1 @ [neighborId]\<rparr>,
                                           n1\<lparr>heuristicDistance :=
                                                Some (AStar_calculateHeuristic opts neighborId targetId)\<rparr>,
                                           removeAll neighborId noHeuristic))
                            else Inr (s1, n1, noHeuristic)) of
                        Inl e \<Rightarrow> (Some e, unvisitedMap, noHeuristic, s1)
                      | Inr (s2, n2, noHeuristic2) \<Rightarrow>
                          let n3 = n2\<lparr>totalDistance :=
                                       num_add (distance n2) (toNumber (heuristicDistance n2))\<rparr>
                          in (None, AList.update neighborId (totalDistance n3) unvisitedMap,
                              noHeuristic2, setNode s2 neighborId n3))
                else (None, unvisitedMap, noHeuristic, s)))"

fun AStar_updateNeighbors_each ::
  "options \<Rightarrow> cell_id \<Rightarrow> node \<Rightarrow> cell_id \<Rightarrow> cell_id list \<Rightarrow> cell_id list
     \<Rightarrow> (cell_id \<times> num) list \<times> cell_id list \<times> search_state
     \<Rightarrow> error option \<times> (cell_id \<times> num) list \<times> cell_id list \<times> search_state" where
  "AStar_updateNeighbors_each opts currentId currentNode targetId visited [] ms = (None, ms)"
| "AStar_updateNeighbors_each opts currentId currentNode targetId visited (neighborId # rest) ms =
     (case AStar_updateNeighbor opts currentId currentNode targetId visited ms neighborId of
        (Some e, ms') \<Rightarrow> (Some e, ms')
      | (None, ms') \<Rightarrow>
          AStar_updateNeighbors_each opts currentId currentNode targetId visited rest ms')"

definition AStar_updateNeighbors ::
  "options \<Rightarrow> cell_id \<Rightarrow> board \<Rightarrow> cell_id \<Rightarrow> cell_id list
     \<Rightarrow> (cell_id \<times> num) list \<times> cell_id list \<times> search_state
     \<Rightarrow> error option \<times> (cell_id \<times> num) list \<times> cell_id list \<times> search_state" where
  "AStar_updateNeighbors opts currentId boardArray targetId visited ms =
     (case map_of (nodes (snd (snd ms))) currentId of
        None \<Rightarrow> (Some TypeError, ms)
      | Some currentNode \<Rightarrow>
          (case AStar_getNeighbors (allowDiagonal opts) currentId (nodes (snd (snd ms))) boardArray of
             Inl e \<Rightarrow> (Some e, ms)
           | Inr neighbors \<Rightarrow>
               AStar_updateNeighbors_each opts currentId currentNode targetId visited neighbors ms))"

text \<open>
  The loop of \<^verbatim>\<open>execute\<close>. Each round deletes a key of the map, and either leaves
  the visited set as it is or adds a cell of the grid to it; so the loop ends.
\<close>

lemma map_of_setNode: "map_of (nodes (setNode s k n)) = (map_of (nodes s))(k \<mapsto> n)"
  by (simp add: setNode_def update_conv')

lemma trace_setNode: "nodesToAnimate (setNode s k n) = nodesToAnimate s"
  by (simp add: setNode_def)

lemma calls_setNode: "heuristicCalls (setNode s k n) = heuristicCalls s"
  by (simp add: setNode_def)

lemma history_setNode: "history (setNode s k n) = history s @ [nodes (setNode s k n)]"
  by (simp add: setNode_def)

declare map_of_setNode [simp] trace_setNode [simp] calls_setNode [simp] history_setNode [simp]

lemma AStar_updateNeighbor_dom:
  "AStar_updateNeighbor opts c cn tg vis (m, nh, s) nb = (e, m', nh', s') \<Longrightarrow>
     dom (map_of (nodes s')) = dom (map_of (nodes s))"
  by (auto simp: AStar_updateNeighbor_def Let_def split: if_splits option.splits sum.splits)


lemma AStar_updateNeighbors_each_dom:
  "AStar_updateNeighbors_each opts c cn tg vis l (m, nh, s) = (e, m', nh', s') \<Longrightarrow>
     dom (map_of (nodes s')) = dom (map_of (nodes s))"
proof (induction l arbitrary: m nh s)
  case Nil
  then show ?case by simp
next
  case (Cons nb l)
  obtain e1 m1 nh1 s1 where u: "AStar_updateNeighbor opts c cn tg vis (m, nh, s) nb = (e1, m1, nh1, s1)"
    by (cases "AStar_updateNeighbor opts c cn tg vis (m, nh, s) nb")
  from AStar_updateNeighbor_dom[OF u] have d: "dom (map_of (nodes s1)) = dom (map_of (nodes s))" .
  show ?case
  proof (cases e1)
    case None
    with Cons.prems u have "AStar_updateNeighbors_each opts c cn tg vis l (m1, nh1, s1) = (e, m', nh', s')"
      by simp
    from Cons.IH[OF this] d show ?thesis by simp
  next
    case (Some err)
    with Cons.prems u d show ?thesis by simp
  qed
qed

lemma AStar_updateNeighbors_dom:
  assumes "AStar_updateNeighbors opts c b tg vis (m, nh, s) = (e, m', nh', s')"
  shows "dom (map_of (nodes s')) = dom (map_of (nodes s))"
  using assms AStar_updateNeighbors_each_dom
  by (auto simp: AStar_updateNeighbors_def split: option.splits sum.splits)

lemma AStar_reduceLowest_key:
  "lowest \<in> fst ` set m \<Longrightarrow> fst ` set es \<subseteq> fst ` set m \<Longrightarrow>
     AStar_reduceLowest m es lowest \<in> fst ` set m"
proof (induction es arbitrary: lowest)
  case Nil
  then show ?case by simp
next
  case (Cons e es)
  obtain k d where e: "e = (k, d)" by (cases e)
  from Cons.prems have k: "k \<in> fst ` set m" and es: "fst ` set es \<subseteq> fst ` set m"
    by (auto simp: e)
  have "(case map_of m lowest of None \<Rightarrow> lowest
         | Some v \<Rightarrow> if num_less d v then k else lowest) \<in> fst ` set m"
    using Cons.prems(1) k by (auto split: option.splits)
  from Cons.IH[OF this es] show ?case by (simp add: e)
qed

lemma AStar_findNodeWithLowestDistance_key:
  assumes "AStar_findNodeWithLowestDistance m = Some k"
  shows "k \<in> fst ` set m"
proof (cases m)
  case Nil
  with assms show ?thesis by (simp add: AStar_findNodeWithLowestDistance_def)
next
  case (Cons e es)
  obtain k0 v0 where e: "e = (k0, v0)" by (cases e)
  have "AStar_reduceLowest m m k0 \<in> fst ` set m"
    by (rule AStar_reduceLowest_key) (auto simp: Cons e)
  with assms Cons e show ?thesis by (simp add: AStar_findNodeWithLowestDistance_def)
qed

lemma delete_shorter: "k \<in> fst ` set m \<Longrightarrow> length (AList.delete k m) < length m"
proof (induction m)
  case Nil
  then show ?case by simp
next
  case (Cons e m)
  then show ?case by (auto simp: AList.delete_eq intro: le_imp_less_Suc)
qed

function AStar_execute_loop ::
  "options \<Rightarrow> board \<Rightarrow> cell_id \<Rightarrow> (cell_id \<times> num) list \<Rightarrow> cell_id list \<Rightarrow> cell_id list
     \<Rightarrow> search_state \<Rightarrow> (error + outcome) \<times> search_state" where
  "AStar_execute_loop opts boardArray targetId unvisitedMap visited noHeuristic s =
     (case AStar_findNodeWithLowestDistance unvisitedMap of
        None \<Rightarrow> (Inr Failed, s)
      | Some currentId \<Rightarrow>
          (case map_of (nodes s) currentId of
             None \<Rightarrow> (Inl TypeError, s)
           | Some currentNode \<Rightarrow>
               if status currentNode = Wall \<or> currentId \<in> set visited
               then AStar_execute_loop opts boardArray targetId
                      (AList.delete currentId unvisitedMap) visited noHeuristic s
               else if distance currentNode = Infinity then (Inr Failed, s)
               else
                 let s1 = visit s currentId currentNode in
                 if currentId = targetId then (Inr Success, s1)
                 else
                   (case AStar_updateNeighbors opts currentId boardArray targetId
                           (visited @ [currentId])
                           (AList.delete currentId unvisitedMap, noHeuristic, s1) of
                      (Some e, m2, noHeuristic2, s2) \<Rightarrow> (Inl e, s2)
                    | (None, m2, noHeuristic2, s2) \<Rightarrow>
                        AStar_execute_loop opts boardArray targetId m2 (visited @ [currentId])
                          noHeuristic2 s2)))"
  by pat_completeness auto
termination
proof (relation "measures [\<lambda>(opts, b, tg, m, vis, nh, s). card (dom (map_of (nodes s)) - set vis),
                           \<lambda>(opts, b, tg, m, vis, nh, s). length m]", goal_cases)
  case 1
  show ?case by simp
next
  case (2 opts b tg m vis nh s k n)
  then show ?case
    by (auto dest!: AStar_findNodeWithLowestDistance_key intro: delete_shorter)
next
  case (3 opts b tg m vis nh s k n s1 e y m2 z nh2 s2)
  from 3 have u: "AStar_updateNeighbors opts k b tg (vis @ [k]) (AList.delete k m, nh, s1)
                    = (e, m2, nh2, s2)"
    by simp
  have d2: "dom (map_of (nodes s2)) = dom (map_of (nodes s1))"
    by (rule AStar_updateNeighbors_dom[OF u])
  from 3 have d1: "dom (map_of (nodes s1)) = dom (map_of (nodes s))"
    by (auto simp: visit_def)
  from 3 have k: "k \<in> dom (map_of (nodes s))" "k \<notin> set vis" by auto
  have "dom (map_of (nodes s)) - set (vis @ [k]) \<subset> dom (map_of (nodes s)) - set vis"
    using k by auto
  then have "card (dom (map_of (nodes s)) - set (vis @ [k])) < card (dom (map_of (nodes s)) - set vis)"
    by (intro psubset_card_mono) (simp_all add: finite_dom_map_of)
  with d1 d2 show ?case by simp
qed

declare AStar_execute_loop.simps [simp del]

text \<open>
  \<^verbatim>\<open>execute\<close>, on the grid \<open>ns\<close> whose objects with the keys \<open>noHeuristic\<close> have no
  \<^verbatim>\<open>heuristicDistance\<close> property, by an instance whose \<^verbatim>\<open>nodesToAnimate\<close> holds \<open>animate\<close>.
  The guard returns \<^verbatim>\<open>false\<close> before the trace of an earlier run is cleared.
  If the grid has no node for the start id, the spread of \<^verbatim>\<open>undefined\<close> stores an object
  with the three fields \<^verbatim>\<open>distance\<close>, \<^verbatim>\<open>totalDistance\<close> and \<^verbatim>\<open>direction\<close> only; it is visited
  first, and since it has no \<^verbatim>\<open>id\<close>, \<^verbatim>\<open>#getDistance\<close> throws at its first neighbour.
\<close>

definition bareStartNode :: node where
  "bareStartNode = \<lparr> status = NoStatus, previousNode = None, path = None, direction = Some Up,
     distance = Fin 0, totalDistance = Fin 0, heuristicDistance = None, weight = 0 \<rparr>"

definition AStar_execute ::
  "options \<Rightarrow> cell_id list \<Rightarrow> grid \<Rightarrow> cell_id list \<Rightarrow> cell_id option \<Rightarrow> cell_id option \<Rightarrow> board
     \<Rightarrow> (error + outcome) \<times> search_state" where
  "AStar_execute opts animate ns noHeuristic startId targetId boardArray =
     (case (startId, targetId) of
        (Some st, Some tg) \<Rightarrow>
          if st = tg then (Inr Failed, initialState ns animate)
          else
            (case map_of ns st of
               Some n \<Rightarrow>
                 AStar_execute_loop opts boardArray tg [(st, Fin 0)] [] noHeuristic
                   (setNode (initialState ns []) st
                      (n\<lparr>distance := Fin 0, totalDistance := Fin 0, direction := Some Up\<rparr>))
             | None \<Rightarrow>
                 let s2 = visit (setNode (initialState ns []) st bareStartNode) st bareStartNode in
                 (case AStar_getNeighbors (allowDiagonal opts) st (nodes s2) boardArray of
                    Inl e \<Rightarrow> (Inl e, s2)
                  | Inr [] \<Rightarrow> (Inr Failed, s2)
                  | Inr (neighborId # rest) \<Rightarrow> (Inl TypeError, s2)))
      | _ \<Rightarrow> (Inr Failed, initialState ns animate))"


section \<open>Example grids\<close>

text \<open>A one-row grid of two cells whose second cell is a wall.\<close>

definition grid_1x2_wall :: grid where
  "grid_1x2_wall = [((0, 0), newNode Unvisited), ((0, 1), newNode Wall)]"

definition board_1x2 :: board where
  "board_1x2 = [[True, True]]"

text \<open>A fresh 2 by 2 grid without walls whose cell \<^verbatim>\<open>"1-1"\<close> has weight 5.\<close>

definition grid_2x2_weighted :: grid where
  "grid_2x2_weighted =
     [((0, 0), newNode Unvisited), ((0, 1), newNode Unvisited),
      ((1, 0), newNode Unvisited), ((1, 1), (newNode Unvisited)\<lparr>weight := 5\<rparr>)]"

definition board_2x2 :: board where
  "board_2x2 = [[True, True], [True, True]]"

text \<open>Two cells whose \<^verbatim>\<open>previousNode\<close> links form a cycle.\<close>

definition grid_cycle :: grid where
  "grid_cycle =
     [((0, 0), (newNode Visited)\<lparr>previousNode := Some (0, 1)\<rparr>),
      ((0, 1), (newNode Visited)\<lparr>previousNode := Some (0, 0)\<rparr>)]"

text \<open>A fresh one-row grid of four cells whose third cell is a wall, and the same grid
  after \<^verbatim>\<open>astar\<close> has searched it from \<^verbatim>\<open>"0-0"\<close> for \<^verbatim>\<open>"0-3"\<close>.\<close>

definition grid_row :: grid where
  "grid_row =
     [((0, 0), newNode Unvisited), ((0, 1), newNode Unvisited),
      ((0, 2), newNode Wall), ((0, 3), newNode Unvisited)]"

definition board_1x4 :: board where
  "board_1x4 = [[True, True, True, True]]"

definition grid_row_searched :: grid where
  "grid_row_searched =
     [((0, 0), (newNode Visited)\<lparr>distance := Fin 0, totalDistance := Fin 0, direction := Some Up,
                                  heuristicDistance := Some 3\<rparr>),
      ((0, 1), (newNode Visited)\<lparr>previousNode := Some (0, 0), distance := Fin 1,
                                  totalDistance := Fin 3, heuristicDistance := Some 2,
                                  path := Some [Forward], direction := Some Right\<rparr>),
      ((0, 2), newNode Wall),
      ((0, 3), newNode Unvisited)]"

text \<open>A 3 by 3 grid with walls above and left of the centre.\<close>

definition grid_3x3_corner :: grid where
  "grid_3x3_corner =
     [((0, 0), newNode Unvisited), ((0, 1), newNode Wall), ((0, 2), newNode Unvisited),
      ((1, 0), newNode Wall), ((1, 1), newNode Unvisited), ((1, 2), newNode Unvisited),
      ((2, 0), newNode Unvisited), ((2, 1), newNode Unvisited), ((2, 2), newNode Unvisited)]"

definition board_3x3 :: board where
  "board_3x3 = [[True, True, True], [True, True, True], [True, True, True]]"

text \<open>A one-row grid of two cells whose first cell is a wall.\<close>

definition grid_wall_start :: grid where
  "grid_wall_start = [((0, 0), newNode Wall), ((0, 1), newNode Unvisited)]"

text \<open>
  A row of four unvisited cells, the last one with weight 2: searched from \<^verbatim>\<open>"0-1"\<close> for
  \<^verbatim>\<open>"0-3"\<close> with step cost 1, the cells \<^verbatim>\<open>"0-0"\<close> and \<^verbatim>\<open>"0-3"\<close> come to the same total
  distance 4, with the heuristic values 3 and 0. The records are those of plain objects
  and of nodes built by \<^verbatim>\<open>new Node\<close> alike.
\<close>

definition grid_row_weighted :: grid where
  "grid_row_weighted =
     [((0, 0), plainNode Unvisited 0), ((0, 1), plainNode Unvisited 0),
      ((0, 2), plainNode Unvisited 0), ((0, 3), plainNode Unvisited 2)]"





section \<open>Properties of the search\<close>

subsection \<open>Path reconstruction\<close>

lemma links_append:
  "links ns prev (xs @ ys) =
     (links ns prev xs \<and> links ns (if xs = [] then prev else Some (last xs)) ys)"
  by (induction xs arbitrary: prev) auto

lemma getShortestPath_walk_links:
  "links ns prev cs \<Longrightarrow>
   getShortestPath_walk ns (if cs = [] then prev else Some (last cs)) pth
     = getShortestPath_walk ns prev (cs @ pth)"
proof (induction cs arbitrary: pth rule: rev_induct)
  case Nil
  then show ?case by simp
next
  case (snoc c cs)
  from snoc.prems have l: "links ns prev cs"
    and c: "links ns (if cs = [] then prev else Some (last cs)) [c]"
    by (simp_all add: links_append)
  from c obtain n where n: "map_of ns c = Some n"
    "previousNode n = (if cs = [] then prev else Some (last cs))"
    by (auto split: option.splits)
  have "getShortestPath_walk ns (Some c) pth
          = getShortestPath_walk ns (if cs = [] then prev else Some (last cs)) (c # pth)"
    by (subst getShortestPath_walk.simps) (simp add: n)
  also have "\<dots> = getShortestPath_walk ns prev (cs @ c # pth)"
    by (rule snoc.IH[OF l])
  finally show ?case by simp
qed

lemma getShortestPath_chain:
  assumes "links ns None cs" and "cs \<noteq> []"
  shows "getShortestPath ns (Some (last cs)) = Some (Inr cs)"
proof -
  have "getShortestPath_walk ns (Some (last cs)) [] = getShortestPath_walk ns None (cs @ [])"
    using getShortestPath_walk_links[OF assms(1), of "[]"] assms(2) by simp
  also have "\<dots> = Some (Inr cs)"
    by (subst getShortestPath_walk.simps) simp
  finally show ?thesis by (simp add: getShortestPath_def)
qed

text \<open>A walk that enters a set of cells closed under \<^verbatim>\<open>previousNode\<close> never returns.\<close>

lemma getShortestPath_walk_cycle:
  assumes closed: "\<forall>c\<in>cyc. \<exists>n c'. map_of ns c = Some n \<and> previousNode n = Some c' \<and> c' \<in> cyc"
    and start: "c \<in> cyc"
  shows "getShortestPath_walk ns (Some c) pth = None"
proof -
  have "ns0 = ns \<longrightarrow> (\<forall>c. cur = Some c \<longrightarrow> c \<notin> cyc)"
    if "getShortestPath_walk ns0 cur pth = Some r" for ns0 cur pth r
  proof (rule getShortestPath_walk.raw_induct
      [where P = "\<lambda>ns0 cur pth r. ns0 = ns \<longrightarrow> (\<forall>c. cur = Some c \<longrightarrow> c \<notin> cyc)", OF _ that],
      goal_cases)
    case (1 f ns0 cur pth r)
    show ?case
    proof (intro impI allI notI)
      fix c assume eq: "ns0 = ns" "cur = Some c" and "c \<in> cyc"
      with closed obtain n c' where n: "map_of ns c = Some n" "previousNode n = Some c'" "c' \<in> cyc"
        by blast
      from 1(2) eq n have "f ns (Some c') (c # pth) = Some r" by simp
      from 1(1)[OF this] n(3) show False by simp
    qed
  qed
  with start show ?thesis by (cases "getShortestPath_walk ns (Some c) pth") auto
qed

subsection \<open>Neighbours\<close>

lemma fullBoard_cell:
  assumes "fullBoard ns b" and "boardCell b x y"
  shows "map_of ns (x, y) \<noteq> None"
  using assms unfolding fullBoard_def boardCell_def
  by (metis int_nat_eq)

lemma fullBoard_boardCell:
  assumes "fullBoard ns b"
  shows "boardCell b x y \<longleftrightarrow> 0 \<le> x \<and> nat x < length b \<and> 0 \<le> y \<and> nat y < length (b ! 0)"
  using assms unfolding fullBoard_def boardCell_def
  by metis

lemma fullBoard_nodesPresent:
  assumes f: "fullBoard ns b" and c: "boardCell b x y"
  shows "nodesPresent ns b (x, y) d"
proof -
  obtain dx dy where d: "d = (dx, dy)" by (cases d)
  have "map_of ns (x + dx, y + dy) \<noteq> None \<and> map_of ns (x, y + dy) \<noteq> None
          \<and> map_of ns (x + dx, y) \<noteq> None"
    if n: "boardCell b (x + dx) (y + dy)"
  proof -
    from c n have "boardCell b x (y + dy)" and "boardCell b (x + dx) y"
      by (simp_all add: fullBoard_boardCell[OF f])
    with n show ?thesis by (simp add: fullBoard_cell[OF f])
  qed
  then show ?thesis by (simp add: d)
qed

lemma utils_getNeighbors_from_filter:
  "\<forall>d\<in>set ds. nodesPresent ns b (x, y) d \<Longrightarrow>
   utils_getNeighbors_from ds (x, y) ns b acc
     = Inr (acc @ map (stepTo (x, y)) (filter (stepAllowed ns b (x, y)) ds))"
proof (induction ds arbitrary: acc)
  case Nil
  then show ?case by simp
next
  case (Cons d ds)
  obtain dx dy where d: "d = (dx, dy)" by (cases d)
  from Cons.prems have p: "nodesPresent ns b (x, y) (dx, dy)"
    and rest: "\<forall>d\<in>set ds. nodesPresent ns b (x, y) d"
    by (simp_all add: d)
  show ?case
    using p Cons.IH[OF rest]
    by (auto simp: d notWall_def isWall_def Let_def
             split: option.splits sum.splits bool.splits)
qed

lemma AStar_getNeighbors_from_filter:
  "\<forall>d\<in>set ds. nodesPresent ns b (x, y) d \<Longrightarrow>
   AStar_getNeighbors_from ds (x, y) ns b acc
     = Inr (acc @ map (stepTo (x, y)) (filter (stepAllowed ns b (x, y)) ds))"
proof (induction ds arbitrary: acc)
  case Nil
  then show ?case by simp
next
  case (Cons d ds)
  obtain dx dy where d: "d = (dx, dy)" by (cases d)
  from Cons.prems have p: "nodesPresent ns b (x, y) (dx, dy)"
    and rest: "\<forall>d\<in>set ds. nodesPresent ns b (x, y) d"
    by (simp_all add: d)
  show ?case
    using p Cons.IH[OF rest]
    by (auto simp: d notWall_def isWall_def Let_def
             split: option.splits sum.splits bool.splits)
qed

subsection \<open>The search loop: what each step may assume\<close>

lemma getNeighbors_from_sound:
  "getNeighbors_from ds (x, y) ns b acc = Inr l \<Longrightarrow> nb \<in> set l \<Longrightarrow>
     nb \<in> set acc \<or> (\<exists>d\<in>set ds. nb = stepTo (x, y) d \<and> (\<exists>m. map_of ns nb = Some m \<and> status m \<noteq> Wall))"
proof (induction ds arbitrary: acc)
  case Nil
  then show ?case by simp
next
  case (Cons d ds)
  obtain dx dy where d: "d = (dx, dy)" by (cases d)
  from Cons.prems(1) obtain acc' where
    rec: "getNeighbors_from ds (x, y) ns b acc' = Inr l"
    and acc': "acc' = acc \<or> (acc' = acc @ [(x + dx, y + dy)] \<and> (\<exists>m. map_of ns (x + dx, y + dy) = Some m \<and> status m \<noteq> Wall))"
    by (auto simp: d Let_def split: if_splits option.splits)
  from Cons.IH[OF rec Cons.prems(2)] acc' show ?case
    by (auto simp: d)
qed

lemma getNeighbors_from_sound_nil:
  assumes "getNeighbors_from ds (x, y) ns b [] = Inr l" and "nb \<in> set l"
  shows "\<exists>d\<in>set ds. nb = stepTo (x, y) d \<and> (\<exists>m. map_of ns nb = Some m \<and> status m \<noteq> Wall)"
  using getNeighbors_from_sound[OF assms] by simp

lemma getNeighbors_sound:
  assumes "getNeighbors c ns b = Inr l" and "nb \<in> set l"
  shows "nb \<noteq> c \<and> (\<exists>m. map_of ns nb = Some m \<and> status m \<noteq> Wall)"
proof -
  obtain x y where c: "c = (x, y)" by (cases c)
  from assms(1) have g: "getNeighbors_from [(-1, 0), (1, 0), (0, -1), (0, 1)] (x, y) ns b [] = Inr l"
    by (simp only: getNeighbors_def c)
  from getNeighbors_from_sound_nil[OF g assms(2)] obtain d where
    d: "d \<in> set [(-1, 0), (1, 0), (0, -1), (0, 1)]" "nb = stepTo (x, y) d"
    and m: "\<exists>m. map_of ns nb = Some m \<and> status m \<noteq> Wall"
    by blast
  from d(1) have "d \<noteq> (0, 0)" by auto
  with d(2) have "nb \<noteq> (x, y)" by (cases d) auto
  with m c show ?thesis by simp
qed

lemma relax_frame:
  "(\<forall>k. k \<noteq> nb \<longrightarrow> map_of (nodes (relax s c n nb)) k = map_of (nodes s) k)
   \<and> (\<forall>m. map_of (nodes s) nb = Some m \<longrightarrow>
         (\<exists>m'. map_of (nodes (relax s c n nb)) nb = Some m' \<and> status m' = status m))
   \<and> nodesToAnimate (relax s c n nb) = nodesToAnimate s"
  by (auto simp: relax_def Let_def updateNodeWithNewPath_def split: option.splits)

lemma cacheHeuristic_frame:
  "(\<forall>k. k \<noteq> nb \<longrightarrow> map_of (nodes (cacheHeuristic s nb m t)) k = map_of (nodes s) k)
   \<and> map_of (nodes (cacheHeuristic s nb m t)) nb = Some (m\<lparr>heuristicDistance := Some (manhattanDistance nb t)\<rparr>)
   \<and> nodesToAnimate (cacheHeuristic s nb m t) = nodesToAnimate s"
  by (auto simp: cacheHeuristic_def)

lemma updateSingleNeighbor_cases:
  assumes "updateSingleNeighbor s c nb t = (e, s')"
  obtains (threw) "e = Some TypeError" "s' = s"
    | (relax) n m where "e = None" "map_of (nodes s) c = Some n" "map_of (nodes s) nb = Some m"
        "\<not> falsy (heuristicDistance m)" "s' = relax s c n nb"
    | (cache) n m tn where "e = None" "map_of (nodes s) c = Some n" "map_of (nodes s) nb = Some m"
        "falsy (heuristicDistance m)" "map_of (nodes s) t = Some tn"
        "s' = relax (cacheHeuristic s nb m t) c n nb"
proof (cases "map_of (nodes s) c")
  case None
  with assms threw show ?thesis by (simp add: updateSingleNeighbor_def)
next
  case (Some n)
  note n = this
  show ?thesis
  proof (cases "map_of (nodes s) nb")
    case None
    with assms n threw show ?thesis by (simp add: updateSingleNeighbor_def)
  next
    case (Some m)
    note m = this
    show ?thesis
    proof (cases "falsy (heuristicDistance m)")
      case False
      with assms n m relax show ?thesis by (simp add: updateSingleNeighbor_def)
    next
      case True
      note f = this
      show ?thesis
      proof (cases "map_of (nodes s) t")
        case None
        with assms n m f threw show ?thesis by (simp add: updateSingleNeighbor_def)
      next
        case (Some tn)
        with assms n m f cache show ?thesis by (simp add: updateSingleNeighbor_def)
      qed
    qed
  qed
qed

lemma updateSingleNeighbor_frame:
  assumes "updateSingleNeighbor s c nb t = (e, s')"
  shows "(\<forall>k. k \<noteq> nb \<longrightarrow> map_of (nodes s') k = map_of (nodes s) k)
   \<and> (\<forall>m. map_of (nodes s) nb = Some m \<longrightarrow>
         (\<exists>m'. map_of (nodes s') nb = Some m' \<and> status m' = status m))
   \<and> nodesToAnimate s' = nodesToAnimate s"
  using assms
proof (cases rule: updateSingleNeighbor_cases)
  case threw
  then show ?thesis by simp
next
  case (relax n m)
  then show ?thesis using relax_frame[of nb s c n] by simp
next
  case (cache n m tn)
  then show ?thesis
    using relax_frame[of nb "cacheHeuristic s nb m t" c n] cacheHeuristic_frame[of nb s m t]
    by auto
qed


lemma findClosestNode_scan_sound:
  "findClosestNode_scan ns us i (cl, ci) = Inr (Some (c, n), ci') \<Longrightarrow>
     cl = Some (c, n) \<or> (c \<in> set us \<and> map_of ns c = Some n \<and> status n \<noteq> Wall)"
proof (induction us arbitrary: i cl ci)
  case Nil
  then show ?case by simp
next
  case (Cons u us)
  from Cons.prems obtain cl1 ci1 where
    step: "findClosestNode_scan ns us (Suc i) (cl1, ci1) = Inr (Some (c, n), ci')"
    and cl1: "cl1 = cl \<or> (\<exists>m. cl1 = Some (u, m) \<and> map_of ns u = Some m \<and> status m \<noteq> Wall)"
    by (auto split: option.splits if_splits)
  from Cons.IH[OF step] cl1 show ?case by auto
qed

lemma findClosestNode_sound:
  assumes "findClosestNode ns us = Inr (Some (c, n), rest)"
  shows "c \<in> set us \<and> map_of ns c = Some n \<and> status n \<noteq> Wall"
proof -
  from assms obtain ci where "findClosestNode_scan ns us 0 (None, 0) = Inr (Some (c, n), ci)"
    by (auto simp: findClosestNode_def split: sum.splits)
  from findClosestNode_scan_sound[OF this] show ?thesis by simp
qed

lemma updateNeighbors_each_rule:
  assumes cache: "\<And>s nb m tn. \<lbrakk>I s; map_of (nodes s) nb = Some m; status m \<noteq> Wall;
        falsy (heuristicDistance m); map_of (nodes s) t = Some tn\<rbrakk> \<Longrightarrow> I (cacheHeuristic s nb m t)"
    and relax: "\<And>s n nb m. \<lbrakk>I s; map_of (nodes s) c = Some n; status n = Visited;
        distance n \<noteq> Infinity; nb \<noteq> c; map_of (nodes s) nb = Some m; status m \<noteq> Wall;
        \<not> falsy (heuristicDistance m) \<or> heuristicDistance m = Some (manhattanDistance nb t)\<rbrakk>
        \<Longrightarrow> I (relax s c n nb)"
  shows "I s \<Longrightarrow> map_of (nodes s) c = Some n \<Longrightarrow> status n = Visited \<Longrightarrow> distance n \<noteq> Infinity \<Longrightarrow>
     (\<forall>nb\<in>set l. nb \<noteq> c \<and> (\<exists>m. map_of (nodes s) nb = Some m \<and> status m \<noteq> Wall)) \<Longrightarrow>
     I (snd (updateNeighbors_each l s c t))"
proof (induction l arbitrary: s)
  case Nil
  then show ?case by simp
next
  case (Cons nb l)
  obtain e s' where u: "updateSingleNeighbor s c nb t = (e, s')"
    by (cases "updateSingleNeighbor s c nb t")
  from Cons.prems(5) have nbc: "nb \<noteq> c"
    and nbm: "\<exists>m. map_of (nodes s) nb = Some m \<and> status m \<noteq> Wall"
    and rest: "\<forall>k\<in>set l. k \<noteq> c \<and> (\<exists>m. map_of (nodes s) k = Some m \<and> status m \<noteq> Wall)"
    by simp_all
  have I': "I s'"
    using u
  proof (cases rule: updateSingleNeighbor_cases)
    case threw
    with Cons.prems(1) show ?thesis by simp
  next
    case (relax n' m)
    with Cons.prems nbm have "n' = n" "status m \<noteq> Wall" by auto
    with relax Cons.prems nbc show ?thesis
      using assms(2)[of s n nb m] by simp
  next
    case (cache n' m tn)
    with Cons.prems nbm have n': "n' = n" and mw: "status m \<noteq> Wall" by auto
    let ?s1 = "cacheHeuristic s nb m t"
    have I1: "I ?s1"
      using assms(1)[OF Cons.prems(1) cache(3) mw cache(4) cache(5)] .
    have c1: "map_of (nodes ?s1) c = Some n"
      using cacheHeuristic_frame[of nb s m t] nbc Cons.prems(2) by metis
    have m1: "map_of (nodes ?s1) nb = Some (m\<lparr>heuristicDistance := Some (manhattanDistance nb t)\<rparr>)"
      using cacheHeuristic_frame[of nb s m t] by simp
    show ?thesis
      using assms(2)[OF I1 c1 Cons.prems(3) Cons.prems(4) nbc m1] mw cache(6) n' by simp
  qed
  from updateSingleNeighbor_frame[OF u] nbc Cons.prems(2)
  have c': "map_of (nodes s') c = Some n" by metis
  have rest': "\<forall>k\<in>set l. k \<noteq> c \<and> (\<exists>m. map_of (nodes s') k = Some m \<and> status m \<noteq> Wall)"
  proof
    fix k assume k: "k \<in> set l"
    with rest obtain m where m: "k \<noteq> c" "map_of (nodes s) k = Some m" "status m \<noteq> Wall" by blast
    show "k \<noteq> c \<and> (\<exists>m. map_of (nodes s') k = Some m \<and> status m \<noteq> Wall)"
    proof (cases "k = nb")
      case True
      with updateSingleNeighbor_frame[OF u] m show ?thesis by metis
    next
      case False
      with updateSingleNeighbor_frame[OF u] m show ?thesis by metis
    qed
  qed
  show ?case
  proof (cases e)
    case None
    with u Cons.IH[OF I' c' Cons.prems(3) Cons.prems(4) rest'] show ?thesis by simp
  next
    case (Some err)
    with u I' show ?thesis by simp
  qed
qed


lemma visit_lookup:
  "map_of (nodes (visit s c n)) = (map_of (nodes s))(c \<mapsto> n\<lparr>status := Visited\<rparr>)"
  by (simp add: visit_def)

lemma astar_loop_rule:
  assumes visit: "\<And>s c n. \<lbrakk>I s; map_of (nodes s) c = Some n; status n \<noteq> Wall;
        distance n \<noteq> Infinity\<rbrakk> \<Longrightarrow> I (visit s c n)"
    and cache: "\<And>s nb m tn. \<lbrakk>I s; map_of (nodes s) nb = Some m; status m \<noteq> Wall;
        falsy (heuristicDistance m); map_of (nodes s) target = Some tn\<rbrakk>
        \<Longrightarrow> I (cacheHeuristic s nb m target)"
    and relax: "\<And>s c n nb m. \<lbrakk>I s; map_of (nodes s) c = Some n; status n = Visited;
        distance n \<noteq> Infinity; nb \<noteq> c; map_of (nodes s) nb = Some m; status m \<noteq> Wall;
        \<not> falsy (heuristicDistance m) \<or> heuristicDistance m = Some (manhattanDistance nb target)\<rbrakk>
        \<Longrightarrow> I (relax s c n nb)"
  shows "I s \<Longrightarrow> I (snd (astar_loop b target us s))"
proof -
  have "t = target \<Longrightarrow> I s \<Longrightarrow> I (snd (astar_loop b t us s))" for t
  proof (induction b t us s rule: astar_loop.induct)
    case (1 b t us s)
    note IH = "1.IH" and Is = "1.prems"(2) and t = "1.prems"(1)
    show ?case
    proof (cases "us = []")
      case True
      with Is show ?thesis by (subst astar_loop.simps) simp
    next
      case ne: False
      show ?thesis
      proof (cases "findClosestNode (nodes s) us")
        case (Inl e)
        with ne Is show ?thesis by (subst astar_loop.simps) simp
      next
        case (Inr r)
        obtain cl rest where r: "r = (cl, rest)" by (cases r)
        show ?thesis
        proof (cases cl)
          case None
          with ne Inr r Is show ?thesis by (subst astar_loop.simps) simp
        next
          case (Some cn)
          obtain c n where cn: "cn = (c, n)" by (cases cn)
          from Inr r Some cn have f: "findClosestNode (nodes s) us = Inr (Some (c, n), rest)"
            by simp
          from findClosestNode_sound[OF f]
          have cm: "map_of (nodes s) c = Some n" and nw: "status n \<noteq> Wall"
            by simp_all
          show ?thesis
          proof (cases "distance n = Infinity")
            case True
            with ne f nw Is show ?thesis by (subst astar_loop.simps) simp
          next
            case fin: False
            let ?s1 = "visit s c n"
            have I1: "I ?s1" using assms(1)[OF Is cm nw fin] .
            show ?thesis
            proof (cases "c = t")
              case True
              with ne f nw fin I1 show ?thesis
                by (subst astar_loop.simps) (simp add: Let_def)
            next
              case nt: False
              obtain e s2 where u: "updateNeighbors ?s1 c b t = (e, s2)"
                by (cases "updateNeighbors ?s1 c b t")
              have c1: "map_of (nodes ?s1) c = Some (n\<lparr>status := Visited\<rparr>)"
                by (simp add: visit_lookup)
              have I2: "I s2"
              proof (cases "getNeighbors c (nodes ?s1) b")
                case (Inl err)
                with u I1 show ?thesis by (simp add: updateNeighbors_def)
              next
                case (Inr l)
                have nbs: "\<forall>nb\<in>set l. nb \<noteq> c
                    \<and> (\<exists>m. map_of (nodes ?s1) nb = Some m \<and> status m \<noteq> Wall)"
                  using getNeighbors_sound[OF Inr] by blast
                have "I (snd (updateNeighbors_each l ?s1 c t))"
                proof (rule updateNeighbors_each_rule
                    [where I = I and n = "n\<lparr>status := Visited\<rparr>"], goal_cases)
                  case (1 s nb m tn)
                  then show ?case unfolding t by (rule assms(2))
                next
                  case (2 s n nb m)
                  then show ?case unfolding t by (rule assms(3))
                qed (use I1 c1 fin nbs in simp_all)
                with u Inr show ?thesis by (simp add: updateNeighbors_def)
              qed
              show ?thesis
              proof (cases e)
                case None
                from IH(2)[OF ne f refl refl refl nw fin refl nt u[symmetric] None t I2]
                have "I (snd (astar_loop b t rest s2))" .
                with ne f nw fin nt u None show ?thesis
                  by (subst astar_loop.simps) (simp add: Let_def)
              next
                case (Some err)
                with ne f nw fin nt u I2 show ?thesis
                  by (subst astar_loop.simps) (simp add: Let_def)
              qed
            qed
          qed
        qed
      qed
    qed
  qed
  then show "I s \<Longrightarrow> I (snd (astar_loop b target us s))" by simp
qed

subsection \<open>Walls\<close>

lemma inv_walls_assigns:
  assumes inv: "inv_walls ns0 st a0 s" and step: "assigns s s'"
  shows "inv_walls ns0 st a0 s'"
proof -
  from step obtain k n n' where k: "map_of (nodes s) k = Some n" "status n \<noteq> Wall"
    and upd: "map_of (nodes s') = (map_of (nodes s))(k \<mapsto> n')" and n': "status n' \<noteq> Wall"
    and vis: "status n = Visited \<longrightarrow> status n' = Visited"
    and hist: "history s' = history s @ [nodes s']"
    and tr: "nodesToAnimate s' = nodesToAnimate s
            \<or> nodesToAnimate s' = nodesToAnimate s @ [k] \<and> status n' = Visited"
    unfolding assigns_def by blast
  from inv have dom: "dom (map_of (nodes s)) = dom (map_of ns0)"
    and wk: "wallsKept ns0 st (nodes s)"
    and wh: "\<forall>h\<in>set (history s). wallsKept ns0 st h"
    unfolding inv_walls_def by simp_all
  from inv obtain tr0 where tr0: "nodesToAnimate s = a0 @ tr0"
    and trv: "\<forall>c\<in>set tr0. \<exists>n0 n. map_of ns0 c = Some n0 \<and> status n0 \<noteq> Wall
                  \<and> map_of (nodes s) c = Some n \<and> status n = Visited"
    unfolding inv_walls_def by blast
  have dom': "dom (map_of (nodes s')) = dom (map_of ns0)"
    using dom k(1) upd by auto
  have wk': "wallsKept ns0 st (nodes s')"
    unfolding wallsKept_def
  proof (intro allI impI)
    fix c n0 assume w: "map_of ns0 c = Some n0 \<and> status n0 = Wall"
    with wk obtain m where m: "map_of (nodes s) c = Some m" "status m = Wall" "c \<noteq> st \<longrightarrow> m = n0"
      unfolding wallsKept_def by blast
    with k have "c \<noteq> k" by auto
    with m upd show "\<exists>n. map_of (nodes s') c = Some n \<and> status n = Wall \<and> (c \<noteq> st \<longrightarrow> n = n0)"
      by simp
  qed
  have k0: "\<exists>n0. map_of ns0 k = Some n0 \<and> status n0 \<noteq> Wall"
  proof -
    from dom k(1) obtain n0 where n0: "map_of ns0 k = Some n0" by blast
    with wk k show ?thesis unfolding wallsKept_def by (metis option.inject)
  qed
  have keep: "\<exists>n0 m. map_of ns0 c = Some n0 \<and> status n0 \<noteq> Wall
                  \<and> map_of (nodes s') c = Some m \<and> status m = Visited"
    if "c \<in> set tr0" for c
  proof -
    from trv that obtain n0 m where m: "map_of ns0 c = Some n0" "status n0 \<noteq> Wall"
      "map_of (nodes s) c = Some m" "status m = Visited" by blast
    show ?thesis
    proof (cases "c = k")
      case True
      with m k vis upd show ?thesis by auto
    next
      case False
      with m upd show ?thesis by simp
    qed
  qed
  have tr': "\<exists>tr. nodesToAnimate s' = a0 @ tr
           \<and> (\<forall>c\<in>set tr. \<exists>n0 n. map_of ns0 c = Some n0 \<and> status n0 \<noteq> Wall
                  \<and> map_of (nodes s') c = Some n \<and> status n = Visited)"
    using tr
  proof
    assume "nodesToAnimate s' = nodesToAnimate s"
    with tr0 keep show ?thesis by auto
  next
    assume a: "nodesToAnimate s' = nodesToAnimate s @ [k] \<and> status n' = Visited"
    with tr0 have "nodesToAnimate s' = a0 @ (tr0 @ [k])" by simp
    moreover have "\<forall>c\<in>set (tr0 @ [k]). \<exists>n0 n. map_of ns0 c = Some n0 \<and> status n0 \<noteq> Wall
                  \<and> map_of (nodes s') c = Some n \<and> status n = Visited"
      using keep k0 a upd by auto
    ultimately show ?thesis by blast
  qed
  show ?thesis
    unfolding inv_walls_def using dom' wk' wh hist tr' by auto
qed

lemma assigns_visit:
  assumes "map_of (nodes s) c = Some n" and "status n \<noteq> Wall"
  shows "assigns s (visit s c n)"
  unfolding assigns_def
  by (rule exI[of _ c], rule exI[of _ n], rule exI[of _ "n\<lparr>status := Visited\<rparr>"])
     (use assms in \<open>simp add: visit_def\<close>)

lemma assigns_cacheHeuristic:
  assumes "map_of (nodes s) nb = Some m" and "status m \<noteq> Wall"
  shows "assigns s (cacheHeuristic s nb m t)"
  unfolding assigns_def
  by (rule exI[of _ nb], rule exI[of _ m],
      rule exI[of _ "m\<lparr>heuristicDistance := Some (manhattanDistance nb t)\<rparr>"])
     (use assms in \<open>simp add: cacheHeuristic_def\<close>)

lemma assigns_relax:
  assumes "map_of (nodes s) nb = Some m" and "status m \<noteq> Wall"
  shows "relax s c n nb = s \<or> assigns s (relax s c n nb)"
proof (cases "relax s c n nb = s")
  case True
  then show ?thesis by simp
next
  case False
  let ?d = "calculateNodeDistance (c, n) (nb, m)"
  let ?m' = "updateNodeWithNewPath m (num_add (num_add (distance n) (weight m)) (fst ?d)) c ?d"
  from False assms have r: "relax s c n nb = setNode s nb ?m'"
    by (auto simp: relax_def Let_def split: if_splits)
  have "assigns s (setNode s nb ?m')"
    unfolding assigns_def
    by (rule exI[of _ nb], rule exI[of _ m], rule exI[of _ ?m'])
       (use assms in \<open>simp add: updateNodeWithNewPath_def\<close>)
  with r show ?thesis by simp
qed

lemma astar_loop_inv_walls:
  assumes "inv_walls ns0 st a0 s"
  shows "inv_walls ns0 st a0 (snd (astar_loop b target us s))"
proof (rule astar_loop_rule[where I = "inv_walls ns0 st a0"], goal_cases)
  case (1 s c n)
  then show ?case using inv_walls_assigns assigns_visit by blast
next
  case (2 s nb m tn)
  then show ?case using inv_walls_assigns assigns_cacheHeuristic by blast
next
  case (3 s c n nb m)
  then show ?case using inv_walls_assigns assigns_relax[of s nb m c n] by metis
next
  case 4
  show ?case by (rule assms)
qed


lemma astar_unfold:
  "astar ns start target animate b =
     (if validateInputs ns start target
      then astar_loop b (the target) (map fst (nodes (initializeStartNode (initialState ns animate) (the start))))
             (initializeStartNode (initialState ns animate) (the start))
      else (Inr Failed, initialState ns animate))"
  by (auto simp: astar_def initialState_def Let_def validateInputs_def split: option.splits)

lemma validateInputs_D:
  assumes "validateInputs ns start target"
  obtains st tg n tn where "start = Some st" "target = Some tg" "map_of ns st = Some n"
    "map_of ns tg = Some tn" "st \<noteq> tg"
  using assms by (auto simp: validateInputs_def split: option.splits if_splits)

lemma inv_walls_initial: "inv_walls ns st animate (initialState ns animate)"
  by (simp add: inv_walls_def initialState_def wallsKept_def)

lemma inv_walls_initializeStartNode:
  "inv_walls ns st animate (initializeStartNode (initialState ns animate) st)"
proof (cases "map_of ns st")
  case None
  then show ?thesis using inv_walls_initial by (simp add: initializeStartNode_def initialState_def)
next
  case (Some n)
  let ?n' = "n\<lparr>distance := Fin 0, totalDistance := Fin 0, direction := Some Up\<rparr>"
  have s1: "initializeStartNode (initialState ns animate) st = setNode (initialState ns animate) st ?n'"
    using Some by (simp add: initializeStartNode_def initialState_def)
  have w: "wallsKept ns st (AList.update st ?n' ns)"
    unfolding wallsKept_def using Some by (auto simp: update_conv')
  have w0: "wallsKept ns st ns" by (simp add: wallsKept_def)
  have d: "dom (map_of (AList.update st ?n' ns)) = dom (map_of ns)"
    using Some by (auto simp: update_conv')
  show ?thesis
    unfolding s1 inv_walls_def
    using w w0 d by (simp add: setNode_def initialState_def)
qed

lemma astar_inv_walls:
  "\<exists>st. inv_walls ns st animate (snd (astar ns start target animate b))
        \<and> (start = None \<or> start = Some st)"
proof (cases "validateInputs ns start target")
  case False
  then have "snd (astar ns start target animate b) = initialState ns animate"
    by (simp add: astar_unfold)
  moreover from False have "start = None \<or> start = Some (the start)" by (cases start) auto
  ultimately show ?thesis using inv_walls_initial by metis
next
  case True
  then obtain st tg where st: "start = Some st" "target = Some tg"
    by (rule validateInputs_D)
  from True st have "snd (astar ns start target animate b) = snd (astar_loop b tg
      (map fst (nodes (initializeStartNode (initialState ns animate) st)))
      (initializeStartNode (initialState ns animate) st))"
    by (simp add: astar_unfold)
  with astar_loop_inv_walls[OF inv_walls_initializeStartNode] st show ?thesis by metis
qed

subsection \<open>The frontier scan\<close>

lemma num_less_irrefl: "\<not> num_less a a"
  by (cases a) simp_all

lemma num_less_trans: "num_less a b \<Longrightarrow> num_less b c \<Longrightarrow> num_less a c"
  by (cases a; cases b; cases c) simp_all

lemma num_less_linear: "num_less a b \<or> a = b \<or> num_less b a"
  by (cases a; cases b) auto

lemma num_less_asym: "num_less a b \<Longrightarrow> \<not> num_less b a"
  by (cases a; cases b) auto

lemma notWorse_refl: "notWorse a a"
  by (simp add: notWorse_def)

declare num_less_irrefl [simp] notWorse_refl [simp]

lemma notWorse_trans: "notWorse a b \<Longrightarrow> notWorse b c \<Longrightarrow> notWorse a c"
proof -
  assume ab: "notWorse a b" and bc: "notWorse b c"
  show ?thesis
  proof (cases "num_less (totalDistance a) (totalDistance b)")
    case True
    with bc show ?thesis unfolding notWorse_def by (auto intro: num_less_trans)
  next
    case False
    with ab have e: "totalDistance a = totalDistance b"
      and h: "toNumber (heuristicDistance a) \<le> toNumber (heuristicDistance b)"
      unfolding notWorse_def by simp_all
    with bc show ?thesis unfolding notWorse_def by auto
  qed
qed

lemma notWorse_total: "notWorse a b \<or> notWorse b a"
  unfolding notWorse_def
  using num_less_linear[of "totalDistance a" "totalDistance b"] by auto

text \<open>The test that makes the scan replace the closest node \<open>c\<close> by \<open>n\<close>.\<close>

lemma replace_iff:
  "(num_less (totalDistance n) (totalDistance c)
    \<or> (totalDistance c = totalDistance n
        \<and> toNumber (heuristicDistance c) > toNumber (heuristicDistance n)))
   \<longleftrightarrow> \<not> notWorse c n"
  by (cases "totalDistance n"; cases "totalDistance c") (auto simp: notWorse_def)

lemma findClosestNode_scan_min:
  "findClosestNode_scan ns us i (cl, ci) = Inr (Some (c, n), ci') \<Longrightarrow>
     (\<forall>c0 n0. cl = Some (c0, n0) \<longrightarrow> notWorse n n0)
     \<and> (\<forall>k\<in>set us. \<forall>m. map_of ns k = Some m \<and> status m \<noteq> Wall \<longrightarrow> notWorse n m)"
proof (induction us arbitrary: i cl ci)
  case Nil
  then show ?case by simp
next
  case (Cons u us)
  from Cons.prems obtain m where m: "map_of ns u = Some m"
    by (cases "map_of ns u") auto
  show ?case
  proof (cases "status m = Wall")
    case True
    with Cons.prems m have "findClosestNode_scan ns us (Suc i) (cl, ci) = Inr (Some (c, n), ci')"
      by simp
    from Cons.IH[OF this] m True show ?thesis by auto
  next
    case nw: False
    show ?thesis
    proof (cases cl)
      case None
      with Cons.prems m nw
      have "findClosestNode_scan ns us (Suc i) (Some (u, m), i) = Inr (Some (c, n), ci')"
        by simp
      from Cons.IH[OF this] m None show ?thesis by auto
    next
      case (Some cn0)
      obtain c0 n0 where cn0: "cn0 = (c0, n0)" by (cases cn0)
      show ?thesis
      proof (cases "notWorse n0 m")
        case True
        with Cons.prems m nw Some cn0 replace_iff[of m n0]
        have "findClosestNode_scan ns us (Suc i) (cl, ci) = Inr (Some (c, n), ci')"
          by (auto split: if_splits)
        from Cons.IH[OF this] Some cn0 have a: "notWorse n n0"
          and b: "\<forall>k\<in>set us. \<forall>m. map_of ns k = Some m \<and> status m \<noteq> Wall \<longrightarrow> notWorse n m"
          by auto
        from a True have "notWorse n m" by (rule notWorse_trans)
        with a b m Some cn0 show ?thesis by auto
      next
        case False
        with Cons.prems m nw Some cn0 replace_iff[of m n0]
        have "findClosestNode_scan ns us (Suc i) (Some (u, m), i) = Inr (Some (c, n), ci')"
          by (auto split: if_splits)
        from Cons.IH[OF this] have a: "notWorse n m"
          and b: "\<forall>k\<in>set us. \<forall>m. map_of ns k = Some m \<and> status m \<noteq> Wall \<longrightarrow> notWorse n m"
          by auto
        from False notWorse_total[of n0 m] have "notWorse m n0" by simp
        with a have "notWorse n n0" by (rule notWorse_trans)
        with a b m Some cn0 show ?thesis by auto
      qed
    qed
  qed
qed

lemma findClosestNode_min:
  assumes "findClosestNode ns us = Inr (Some (c, n), rest)"
    and "k \<in> set us" and "map_of ns k = Some m" and "status m \<noteq> Wall"
  shows "notWorse n m"
proof -
  from assms(1) obtain ci where "findClosestNode_scan ns us 0 (None, 0) = Inr (Some (c, n), ci)"
    by (auto simp: findClosestNode_def split: sum.splits)
  from findClosestNode_scan_min[OF this] assms(2-4) show ?thesis by blast
qed

lemma findClosestNode_scan_position:
  "findClosestNode_scan ns us i (cl, ci) = Inr (Some (c, n), ci') \<Longrightarrow>
     (cl = Some (c, n) \<and> ci' = ci) \<or> (i \<le> ci' \<and> ci' < i + length us \<and> us ! (ci' - i) = c)"
proof (induction us arbitrary: i cl ci)
  case Nil
  then show ?case by simp
next
  case (Cons u us)
  from Cons.prems obtain cl1 ci1 where
    step: "findClosestNode_scan ns us (Suc i) (cl1, ci1) = Inr (Some (c, n), ci')"
    and cl1: "(cl1 = cl \<and> ci1 = ci) \<or> (\<exists>m. cl1 = Some (u, m) \<and> ci1 = i)"
    by (auto split: option.splits if_splits)
  from Cons.IH[OF step] have
    "(cl1 = Some (c, n) \<and> ci' = ci1) \<or> (Suc i \<le> ci' \<and> ci' < Suc i + length us \<and> us ! (ci' - Suc i) = c)" .
  then show ?case
  proof
    assume a: "cl1 = Some (c, n) \<and> ci' = ci1"
    from cl1 show ?thesis
    proof
      assume "cl1 = cl \<and> ci1 = ci"
      with a show ?thesis by simp
    next
      assume "\<exists>m. cl1 = Some (u, m) \<and> ci1 = i"
      with a show ?thesis by auto
    qed
  next
    assume a: "Suc i \<le> ci' \<and> ci' < Suc i + length us \<and> us ! (ci' - Suc i) = c"
    then have "ci' - i = Suc (ci' - Suc i)" by arith
    with a show ?thesis by simp
  qed
qed

lemma findClosestNode_none:
  "findClosestNode_scan ns us i (cl, ci) = Inr (None, ci') \<Longrightarrow>
     cl = None \<and> ci' = ci \<and> (\<forall>k\<in>set us. \<exists>m. map_of ns k = Some m \<and> status m = Wall)"
proof (induction us arbitrary: i cl ci)
  case Nil
  then show ?case by simp
next
  case (Cons u us)
  from Cons.prems obtain cl1 ci1 where
    step: "findClosestNode_scan ns us (Suc i) (cl1, ci1) = Inr (None, ci')"
    and cl1: "(cl1 = cl \<and> ci1 = ci \<and> (\<exists>m. map_of ns u = Some m \<and> status m = Wall)) \<or> cl1 \<noteq> None"
    by (auto split: option.splits if_splits)
  from Cons.IH[OF step] cl1 show ?case by auto
qed

subsection \<open>Costs\<close>

lemma num_le_refl [simp]: "num_le a a"
  by (simp add: num_le_def)


lemma decreased_refl [simp]: "decreased h h"
  by (auto simp: decreased_def)


lemma calculateNodeDistance_cost [simp]: "fst (calculateNodeDistance a b) = 1"
  by (cases a; cases b; cases "fst a"; cases "fst b") simp















lemma relax_result:
  assumes m: "map_of (nodes s) nb = Some m"
  shows "\<exists>m'. map_of (nodes (relax s c n nb)) nb = Some m'
     \<and> heuristicDistance m' = heuristicDistance m
     \<and> (if num_less (num_add (num_add (distance n) (weight m))
                     (fst (calculateNodeDistance (c, n) (nb, m)))) (distance m)
         then distance m' = num_add (num_add (distance n) (weight m))
                              (fst (calculateNodeDistance (c, n) (nb, m)))
              \<and> totalDistance m' = num_add (distance m') (toNumber (heuristicDistance m'))
              \<and> previousNode m' = Some c
              \<and> path m' = Some (fst (snd (calculateNodeDistance (c, n) (nb, m))))
              \<and> direction m' = snd (snd (calculateNodeDistance (c, n) (nb, m)))
         else distance m' = distance m \<and> totalDistance m' = totalDistance m
              \<and> previousNode m' = previousNode m \<and> path m' = path m
              \<and> direction m' = direction m)"
  using m by (simp add: relax_def Let_def updateNodeWithNewPath_def del: calculateNodeDistance.simps)







subsection \<open>The search loop of the subclass\<close>

















subsection \<open>The trace of a successful run\<close>







subsection \<open>The class-style search\<close>







subsection \<open>Input validation\<close>

lemma astar_rejects_invalid_input:
  assumes "start = None \<or> target = None
           \<or> (\<exists>st. start = Some st \<and> map_of ns st = None)
           \<or> (\<exists>tg. target = Some tg \<and> map_of ns tg = None)
           \<or> start = target"
  shows "astar ns start target animate boardArray = (Inr Failed, initialState ns animate)"
proof -
  have "\<not> validateInputs ns start target"
    using assms by (auto simp: validateInputs_def split: option.splits)
  then show ?thesis by (simp add: astar_def initialState_def)
qed

lemma execute_guard:
  assumes "start = None \<or> target = None \<or> start = target"
  shows "execute ns boardArray animate start target = (Inr (Some Failed), initialState ns animate)"
  using assms by (auto simp: execute_def split: option.splits)

section \<open>Results\<close>

text \<open>
  C1. The step cost is claimed to be 3 with path \<open>[turn, turn, forward]\<close> for a reversal
  and to record the turn of a 90-degree turn. \<^verbatim>\<open>getDistance\<close> of the source, called as
  the repository's test calls it (from \<^verbatim>\<open>"2-1"\<close> heading down to \<^verbatim>\<open>"1-1"\<close>, and
  heading right), returns cost 2 and the path \<open>[forward]\<close> in both cases.
\<close>

theorem getDistance_reversal_cost:
  "getDistance ((2, 1), (newNode Unvisited)\<lparr>direction := Some Down\<rparr>) ((1, 1), newNode Unvisited)
     = (2, [Forward], Some Up)
   \<and> getDistance ((2, 1), (newNode Unvisited)\<lparr>direction := Some Right\<rparr>) ((1, 1), newNode Unvisited)
     = (2, [Forward], Some Up)"
  by (simp add: newNode_def)

text \<open>
  C3. \<^verbatim>\<open>AStar.execute\<close> of the subclass tests the two ids only (\<^verbatim>\<open>!start || !target || start
  === target\<close>), not that the grid holds their nodes. With a start id the grid does not
  hold it throws at \<^verbatim>\<open>this.nodes[start].distance = 0\<close>; with a target id the grid does not
  hold it sets the start's distance, visits the start and throws at the first neighbour,
  when the heuristic reads \<^verbatim>\<open>actualTargetNode.id\<close>. In neither case does it return \<^verbatim>\<open>false\<close>,
  and in the second the grid and the trace have changed. \<^verbatim>\<open>astar\<close>, on the same inputs,
  returns \<^verbatim>\<open>false\<close> and changes nothing, as it does on every invalid input (lemma
  \<open>astar_rejects_invalid_input\<close>).
\<close>

theorem execute_missing_node_throws:
  "execute grid_2x2_weighted board_2x2 [] (Some (5, 5)) (Some (1, 1))
     = (Inl TypeError, initialState grid_2x2_weighted [])
   \<and> fst (execute grid_2x2_weighted board_2x2 [] (Some (0, 0)) (Some (5, 5))) = Inl TypeError
   \<and> nodesToAnimate (snd (execute grid_2x2_weighted board_2x2 [] (Some (0, 0)) (Some (5, 5))))
       = [(0, 0)]
   \<and> map_of (nodes (snd (execute grid_2x2_weighted board_2x2 [] (Some (0, 0)) (Some (5, 5))))) (0, 0)
       = Some ((newNode Visited)\<lparr>distance := Fin 0, totalDistance := Fin 0, direction := Some Up\<rparr>)
   \<and> astar grid_2x2_weighted (Some (5, 5)) (Some (1, 1)) [] board_2x2
       = (Inr Failed, initialState grid_2x2_weighted [])
   \<and> astar grid_2x2_weighted (Some (0, 0)) (Some (5, 5)) [] board_2x2
       = (Inr Failed, initialState grid_2x2_weighted [])"
  by code_simp

text \<open>
  C4. A target that is a wall cannot be reached. On the one-row grid whose second cell
  is a wall and the target, \<^verbatim>\<open>astar\<close> visits the start, then \<^verbatim>\<open>findClosestNode\<close> finds
  only the wall left and returns \<^verbatim>\<open>null\<close>, and reading \<^verbatim>\<open>currentNode.status\<close> throws:
  the call does not return \<^verbatim>\<open>false\<close>. Both methods \<^verbatim>\<open>execute\<close> return \<^verbatim>\<open>false\<close> on this grid.
\<close>

theorem astar_wall_target_throws:
  "fst (astar grid_1x2_wall (Some (0, 0)) (Some (0, 1)) [] board_1x2) = Inl TypeError
   \<and> fst (execute grid_1x2_wall board_1x2 [] (Some (0, 0)) (Some (0, 1))) = Inr (Some Failed)
   \<and> fst (AStar_execute defaultOptions [] grid_1x2_wall [] (Some (0, 0)) (Some (0, 1)) board_1x2)
       = Inr Failed"
  by code_simp

text \<open>
  C7. On the 2 by 2 grid with start \<^verbatim>\<open>"0-0"\<close> and target \<^verbatim>\<open>"1-1"\<close> of weight 5 the
  search succeeds, and the heuristic function is called twice for the target cell: its
  cached value is 0, which \<^verbatim>\<open>!neighborNode.heuristicDistance\<close> takes for not cached.
\<close>

theorem astar_heuristic_called_twice:
  "fst (astar grid_2x2_weighted (Some (0, 0)) (Some (1, 1)) [] board_2x2) = Inr Success
   \<and> heuristicCalls (snd (astar grid_2x2_weighted (Some (0, 0)) (Some (1, 1)) [] board_2x2))
       = [(1, 0), (0, 1), (1, 1), (0, 0), (1, 1)]"
  by code_simp

text \<open>
  C8, as claimed: a chain that never reaches the start fails with an "unreachable"
  signal, and a chain with a cycle fails with a "corrupted-graph" signal. It does not
  hold. After a search from \<^verbatim>\<open>"0-0"\<close> that could not reach \<^verbatim>\<open>"0-3"\<close>,
  \<^verbatim>\<open>getShortestPath(nodes, "0-3")\<close> returns the path \<open>["0-3"]\<close>, which does not reach the
  start, and signals nothing; on two cells linked in a cycle the call never returns.
\<close>

theorem getShortestPath_signals_counterexample:
  "fst (astar grid_row (Some (0, 0)) (Some (0, 3)) [] board_1x4) = Inr Failed
   \<and> nodes (snd (astar grid_row (Some (0, 0)) (Some (0, 3)) [] board_1x4)) = grid_row_searched
   \<and> getShortestPath grid_row_searched (Some (0, 3)) = Some (Inr [(0, 3)])
   \<and> getShortestPath grid_cycle (Some (0, 1)) = None"
proof -
  have s: "fst (astar grid_row (Some (0, 0)) (Some (0, 3)) [] board_1x4) = Inr Failed
     \<and> nodes (snd (astar grid_row (Some (0, 0)) (Some (0, 3)) [] board_1x4)) = grid_row_searched"
    by code_simp
  have "links grid_row_searched None [(0, 3)]"
    by (simp add: grid_row_searched_def newNode_def)
  from getShortestPath_chain[OF this] have a: "getShortestPath grid_row_searched (Some (0, 3)) = Some (Inr [(0, 3)])"
    by simp
  have b: "getShortestPath grid_cycle (Some (0, 1)) = None"
    unfolding getShortestPath_def
    by (rule getShortestPath_walk_cycle[where cyc = "{(0, 0), (0, 1)}"])
       (simp_all add: grid_cycle_def)
  from s a b show ?thesis by simp
qed

text \<open>
  C8, amended. \<^verbatim>\<open>getShortestPath\<close> takes no start cell and has no "unreachable" signal:
  whenever the \<^verbatim>\<open>previousNode\<close> links from the target end at a cell whose
  \<^verbatim>\<open>previousNode\<close> is \<^verbatim>\<open>null\<close>, it returns the cells of that chain in order, from that
  cell to the target, whether or not that cell is the start.
\<close>

theorem getShortestPath_follows_links:
  assumes "links ns None cs" and "cs \<noteq> []"
  shows "getShortestPath ns (Some (last cs)) = Some (Inr cs)"
  using assms by (rule getShortestPath_chain)

theorem getShortestPath_follows_links_witness:
  "getShortestPath grid_row_searched (Some (0, 1)) = Some (Inr [(0, 0), (0, 1)])"
proof -
  have l: "links grid_row_searched None [(0, 0), (0, 1)]"
    by (simp add: grid_row_searched_def newNode_def)
  show ?thesis
    using getShortestPath_follows_links[OF l] by simp
qed

text \<open>
  C9. On a board as the repository builds it, for a cell of the board, both neighbour
  functions in diagonal mode return, without throwing, the candidates of the four
  cardinal and then the four diagonal directions that \<open>stepAllowed\<close> admits, in that
  order: a cardinal candidate exactly when it is on the board and not a wall, a diagonal
  candidate exactly when it is on the board, not a wall, and the two cells beside the
  step are not both walls.
\<close>

theorem getNeighbors_diagonal_mode:
  assumes "fullBoard ns boardArray" and "boardCell boardArray x y"
  shows "utils_getNeighbors (x, y) ns boardArray True
           = Inr (map (stepTo (x, y)) (filter (stepAllowed ns boardArray (x, y))
                    (cardinalDirections @ diagonalDirections)))
         \<and> AStar_getNeighbors True (x, y) ns boardArray
           = Inr (map (stepTo (x, y)) (filter (stepAllowed ns boardArray (x, y))
                    (cardinalDirections @ diagonalDirections)))"
proof -
  have p: "\<forall>d\<in>set (cardinalDirections @ diagonalDirections). nodesPresent ns boardArray (x, y) d"
    using fullBoard_nodesPresent[OF assms] by blast
  show ?thesis
    using utils_getNeighbors_from_filter[OF p, of "[]"] AStar_getNeighbors_from_filter[OF p, of "[]"]
    by (simp add: utils_getNeighbors_def AStar_getNeighbors_def)
qed

theorem getNeighbors_diagonal_mode_witness:
  "fullBoard grid_3x3_corner board_3x3 \<and> boardCell board_3x3 1 1
   \<and> utils_getNeighbors (1, 1) grid_3x3_corner board_3x3 True
       = Inr [(2, 1), (1, 2), (0, 2), (2, 0), (2, 2)]
   \<and> AStar_getNeighbors True (1, 1) grid_3x3_corner board_3x3
       = Inr [(2, 1), (1, 2), (0, 2), (2, 0), (2, 2)]"
proof -
  have f: "fullBoard grid_3x3_corner board_3x3"
    by code_simp
  have c: "boardCell board_3x3 1 1"
    by (simp add: boardCell_def board_3x3_def)
  have l: "map (stepTo (1, 1)) (filter (stepAllowed grid_3x3_corner board_3x3 (1, 1))
             (cardinalDirections @ diagonalDirections)) = [(2, 1), (1, 2), (0, 2), (2, 0), (2, 2)]"
    by code_simp
  show ?thesis
    using getNeighbors_diagonal_mode[OF f c] f c l by simp
qed

text \<open>
  C2, as claimed: for every grid, start and target no wall cell ever holds a finite
  \<^verbatim>\<open>distance\<close>. It does not hold when the start cell is a wall: \<^verbatim>\<open>initializeStartNode\<close>
  assigns it the distance 0, the cell stays a wall, and the search fails.
\<close>

theorem astar_wall_start_counterexample:
  "fst (astar grid_wall_start (Some (0, 0)) (Some (0, 1)) [] board_1x2) = Inr Failed
   \<and> map_of (nodes (snd (astar grid_wall_start (Some (0, 0)) (Some (0, 1)) [] board_1x2))) (0, 0)
       = Some ((newNode Wall)\<lparr>distance := Fin 0, totalDistance := Fin 0, direction := Some Up\<rparr>)"
  by code_simp

text \<open>
  C2, amended. For every grid, start and target, whatever the search returns or throws:
  the cells it appends to \<^verbatim>\<open>nodesToAnimate\<close> are marked visited and none of them is a wall
  of the grid, and the search never assigns to a wall other than the start cell: in
  every grid of the run's history a wall is still a wall and, unless it is the start
  cell, carries the record it had when the search was called (so its \<^verbatim>\<open>distance\<close> is
  still \<^verbatim>\<open>Infinity\<close> on a grid of new or reset nodes).
\<close>

theorem astar_keeps_walls:
  "\<exists>tr. nodesToAnimate (snd (astar ns start target animate b)) = animate @ tr
     \<and> (\<forall>c\<in>set tr. \<exists>n. map_of (nodes (snd (astar ns start target animate b))) c = Some n
            \<and> status n = Visited)
     \<and> (\<forall>c n0. map_of ns c = Some n0 \<and> status n0 = Wall \<longrightarrow>
           c \<notin> set tr
           \<and> (\<forall>h\<in>set (history (snd (astar ns start target animate b))).
                 \<exists>n. map_of h c = Some n \<and> status n = Wall \<and> (Some c \<noteq> start \<longrightarrow> n = n0)))"
proof -
  let ?s = "snd (astar ns start target animate b)"
  have "\<exists>st. inv_walls ns st animate ?s \<and> (start = None \<or> start = Some st)"
    by (rule astar_inv_walls)
  then obtain st where inv: "inv_walls ns st animate ?s" and st: "start = None \<or> start = Some st"
    by blast
  from inv obtain tr where tr: "nodesToAnimate ?s = animate @ tr"
    and trv: "\<forall>c\<in>set tr. \<exists>n0 n. map_of ns c = Some n0 \<and> status n0 \<noteq> Wall
                  \<and> map_of (nodes ?s) c = Some n \<and> status n = Visited"
    unfolding inv_walls_def by blast
  from inv have wh: "\<forall>h\<in>set (history ?s). wallsKept ns st h"
    unfolding inv_walls_def by simp
  have walls: "c \<notin> set tr \<and> (\<forall>h\<in>set (history ?s).
                 \<exists>n. map_of h c = Some n \<and> status n = Wall \<and> (Some c \<noteq> start \<longrightarrow> n = n0))"
    if w: "map_of ns c = Some n0 \<and> status n0 = Wall" for c n0
  proof
    from trv w show "c \<notin> set tr" by (metis option.inject)
    show "\<forall>h\<in>set (history ?s). \<exists>n. map_of h c = Some n \<and> status n = Wall
            \<and> (Some c \<noteq> start \<longrightarrow> n = n0)"
    proof
      fix h assume "h \<in> set (history ?s)"
      with wh have "wallsKept ns st h" by simp
      with w obtain n where n: "map_of h c = Some n" "status n = Wall" "c \<noteq> st \<longrightarrow> n = n0"
        unfolding wallsKept_def by blast
      moreover have "Some c \<noteq> start \<longrightarrow> n = n0"
      proof
        assume ne: "Some c \<noteq> start"
        show "n = n0"
        proof (cases "c = st")
          case False
          with n show ?thesis by simp
        next
          case True
          with ne st have "start = None" by auto
          then have "\<not> validateInputs ns start target" by (simp add: validateInputs_def)
          then have "?s = initialState ns animate" by (simp add: astar_unfold)
          with \<open>h \<in> set (history ?s)\<close> have "h = ns" by (simp add: initialState_def)
          with n w show ?thesis by simp
        qed
      qed
      ultimately show "\<exists>n. map_of h c = Some n \<and> status n = Wall \<and> (Some c \<noteq> start \<longrightarrow> n = n0)"
        by blast
    qed
  qed
  from tr trv walls show ?thesis by blast
qed

theorem astar_keeps_walls_witness:
  "nodesToAnimate (snd (astar grid_row (Some (0, 0)) (Some (0, 3)) [] board_1x4)) = [(0, 0), (0, 1)]
   \<and> list_all (\<lambda>h. map_of h (0, 2) = Some (newNode Wall))
        (history (snd (astar grid_row (Some (0, 0)) (Some (0, 3)) [] board_1x4)))"
proof -
  let ?s = "snd (astar grid_row (Some (0, 0)) (Some (0, 3)) [] board_1x4)"
  have w: "map_of grid_row (0, 2) = Some (newNode Wall) \<and> status (newNode Wall) = Wall"
    by (simp add: grid_row_def newNode_def)
  have t: "nodesToAnimate ?s = [(0, 0), (0, 1)]"
    by code_simp
  from astar_keeps_walls[of grid_row "Some (0, 0)" "Some (0, 3)" "[]" board_1x4] w
  have "\<forall>h\<in>set (history ?s). \<exists>n. map_of h (0, 2) = Some n \<and> status n = Wall
          \<and> (Some ((0, 2)::cell_id) \<noteq> Some (0, 0) \<longrightarrow> n = newNode Wall)"
    by blast
  then have "\<forall>h\<in>set (history ?s). map_of h (0, 2) = Some (newNode Wall)"
    by auto
  with t show ?thesis by (simp add: list_all_iff)
qed








text \<open>
  C6. \<^verbatim>\<open>#findNodeWithLowestDistance\<close> compares total distances only and keeps the key it
  holds on a tie, so of two cells with the same total distance it returns the one
  entered first into the map, whatever their heuristic values. On the row of four cells,
  searched from \<^verbatim>\<open>"0-1"\<close> for \<^verbatim>\<open>"0-3"\<close>, the third extraction finds \<^verbatim>\<open>"0-0"\<close> and \<^verbatim>\<open>"0-3"\<close> both
  at total distance 4 and returns \<^verbatim>\<open>"0-0"\<close>, whose heuristic value is 3, before \<^verbatim>\<open>"0-3"\<close>,
  whose heuristic value is 0. The scan \<^verbatim>\<open>findClosestNode\<close> of the function-style search
  breaks the tie by the heuristic value (lemmas \<open>findClosestNode_min\<close> and
  \<open>findClosestNode_scan_position\<close>) and visits \<^verbatim>\<open>"0-3"\<close> third, as does \<^verbatim>\<open>execute\<close> of the
  subclass.
\<close>

theorem AStar_lowest_ignores_heuristic:
  "AStar_findNodeWithLowestDistance [((0, 0), Fin 4), ((0, 3), Fin 4)] = Some (0, 0)
   \<and> nodesToAnimate (snd (AStar_execute defaultOptions [] grid_row_weighted (map fst grid_row_weighted)
                            (Some (0, 1)) (Some (0, 3)) board_1x4))
       = [(0, 1), (0, 2), (0, 0), (0, 3)]
   \<and> map_option totalDistance (map_of (nodes (snd (AStar_execute defaultOptions [] grid_row_weighted (map fst grid_row_weighted)
                            (Some (0, 1)) (Some (0, 3)) board_1x4))) (0, 0)) = Some (Fin 4)
   \<and> map_option heuristicDistance (map_of (nodes (snd (AStar_execute defaultOptions [] grid_row_weighted (map fst grid_row_weighted)
                            (Some (0, 1)) (Some (0, 3)) board_1x4))) (0, 0)) = Some (Some 3)
   \<and> map_option totalDistance (map_of (nodes (snd (AStar_execute defaultOptions [] grid_row_weighted (map fst grid_row_weighted)
                            (Some (0, 1)) (Some (0, 3)) board_1x4))) (0, 3)) = Some (Fin 4)
   \<and> map_option heuristicDistance (map_of (nodes (snd (AStar_execute defaultOptions [] grid_row_weighted (map fst grid_row_weighted)
                            (Some (0, 1)) (Some (0, 3)) board_1x4))) (0, 3)) = Some (Some 0)
   \<and> nodesToAnimate (snd (astar grid_row_weighted (Some (0, 1)) (Some (0, 3)) [] board_1x4))
       = [(0, 1), (0, 2), (0, 3)]
   \<and> nodesToAnimate (snd (execute grid_row_weighted board_1x4 [] (Some (0, 1)) (Some (0, 3))))
       = [(0, 1), (0, 2), (0, 3)]"
  by code_simp

end
